theory Spec2Isabelle
  imports Complex_Main "HOL-Library.Word" "HOL-Library.Sublist"
begin

section \<open>Text and bytes\<close>

text \<open>
  Python \<open>bytes\<close> are lists of 8-bit words. Python \<open>str\<close> values are lists of
  characters; a \<^typ>\<open>char\<close> stands for the code point of the same number, so the
  embedding covers the code points below 256 (every roll number, nonce and token text the
  programs build from ASCII data lies in that range).
\<close>

type_synonym byte = "8 word"
type_synonym bytes = "byte list"

text \<open>
  \<open>str.isspace\<close> on the code points below 256: TAB, LF, VT, FF, CR, the four
  separators FS, GS, RS, US, the space, NEL (0x85) and the no-break space (0xA0).
\<close>

definition py_isspace :: "char \<Rightarrow> bool" where
  "py_isspace c = (of_char c \<in> {9, 10, 11, 12, 13, 28, 29, 30, 31, 32, 133, 160 :: nat})"

text \<open>\<open>s.strip()\<close>: leading and trailing whitespace removed.\<close>

definition py_strip :: "string \<Rightarrow> string" where
  "py_strip s = rev (dropWhile py_isspace (rev (dropWhile py_isspace s)))"

text \<open>
  \<open>s.split(sep)\<close> for a one-character separator: the maximal pieces between the
  occurrences of \<open>sep\<close>, empty pieces kept, so the result has one more element than
  \<open>s\<close> has separators. The result is never empty; the \<open>[]\<close> branch of the
  \<open>case\<close> only makes the function total.
\<close>

fun py_split :: "char \<Rightarrow> string \<Rightarrow> string list" where
  "py_split sep [] = [[]]"
| "py_split sep (c # cs) =
     (if c = sep then [] # py_split sep cs
      else (case py_split sep cs of
              w # ws \<Rightarrow> (c # w) # ws
            | [] \<Rightarrow> [[c]]))"

subsection \<open>URL-safe base64 encoding\<close>

text \<open>
  \<open>base64.urlsafe_b64encode(bs).decode("utf-8")\<close>: RFC 4648 section 5 with padding.
  Three bytes give four characters of the 64-character alphabet; a last group of one or
  two bytes is padded with \<open>=\<close>. The output is ASCII, so decoding it as UTF-8 maps
  every byte to the character of the same number.
\<close>

definition b64_alphabet :: string where
  "b64_alphabet = ''ABCDEFGHIJKLMNOPQRSTUVWXYZabcdefghijklmnopqrstuvwxyz0123456789-_''"

definition b64_char :: "nat \<Rightarrow> char" where
  "b64_char n = b64_alphabet ! (n mod 64)"

fun urlsafe_b64encode :: "bytes \<Rightarrow> string" where
  "urlsafe_b64encode (a # b # c # rest) =
     [b64_char (unat a div 4),
      b64_char ((unat a mod 4) * 16 + unat b div 16),
      b64_char ((unat b mod 16) * 4 + unat c div 64),
      b64_char (unat c mod 64)] @ urlsafe_b64encode rest"
| "urlsafe_b64encode [a, b] =
     [b64_char (unat a div 4),
      b64_char ((unat a mod 4) * 16 + unat b div 16),
      b64_char ((unat b mod 16) * 4),
      CHR ''='']"
| "urlsafe_b64encode [a] =
     [b64_char (unat a div 4),
      b64_char ((unat a mod 4) * 16),
      CHR ''='', CHR ''='']"
| "urlsafe_b64encode [] = []"

subsection \<open>The library functions the programs call\<close>

text \<open>
  The decoder of the \<open>base64\<close> module, the Fernet cipher under the key of
  \<open>ENCRYPTION_KEY\<close> and the UTF-8 codec are library code. They are parameters of the
  model. A function that raises in Python returns \<open>None\<close>.
  \<open>fernet_encrypt\<close> is the ciphertext one call of \<open>fernet.encrypt\<close> returns
  (the library draws an IV and reads the clock; both are folded into the function).
\<close>

record libs =
  urlsafe_b64decode :: "string \<Rightarrow> bytes option"
  fernet_encrypt :: "bytes \<Rightarrow> bytes"
  fernet_decrypt :: "bytes \<Rightarrow> bytes option"
  utf8_encode :: "string \<Rightarrow> bytes"
  utf8_decode :: "bytes \<Rightarrow> string option"

text \<open>
  What the libraries guarantee: decoding inverts encoding, for base64, for the cipher
  (under the one key both programs load) and for UTF-8.
\<close>

definition libs_ok :: "libs \<Rightarrow> bool" where
  "libs_ok L \<longleftrightarrow>
     (\<forall>bs. urlsafe_b64decode L (urlsafe_b64encode bs) = Some bs) \<and>
     (\<forall>p. fernet_decrypt L (fernet_encrypt L p) = Some p) \<and>
     (\<forall>s. utf8_decode L (utf8_encode L s) = Some s)"

section \<open>Issuing tokens (generate_qr_and_email.py)\<close>

text \<open>
  \<open>make_token(roll_no)\<close>; \<open>rnd\<close> is the result of \<open>os.urandom(6)\<close>.
\<close>

definition make_nonce :: "bytes \<Rightarrow> string" where
  "make_nonce rnd = urlsafe_b64encode rnd"

definition make_payload :: "string \<Rightarrow> string \<Rightarrow> string" where
  "make_payload roll_no nonce = roll_no @ ''|'' @ nonce"

definition make_token :: "libs \<Rightarrow> bytes \<Rightarrow> string \<Rightarrow> bytes" where
  "make_token L rnd roll_no =
     (let nonce = make_nonce rnd;
          payload = make_payload roll_no nonce
      in fernet_encrypt L (utf8_encode L payload))"

text \<open>
  \<open>generate_qr_image_from_token(token)\<close>: the text put into the QR code. The image
  itself is rendered by the \<open>qrcode\<close> library and plays no role below.
\<close>

definition generate_qr_image_from_token :: "bytes \<Rightarrow> string" where
  "generate_qr_image_from_token token = urlsafe_b64encode token"

text \<open>
  The encoding with the nonce given, \<open>encode(participantId, nonce)\<close> of the
  specification: the payload of \<open>make_token\<close>, encrypted, in the text form of
  \<open>generate_qr_image_from_token\<close>.
\<close>

definition encode_token :: "libs \<Rightarrow> string \<Rightarrow> string \<Rightarrow> string" where
  "encode_token L roll_no nonce =
     generate_qr_image_from_token (fernet_encrypt L (utf8_encode L (make_payload roll_no nonce)))"

section \<open>Decoding a scanned text (the verifiers' \<open>recv\<close>)\<close>

text \<open>
  The \<open>try\<close> block of \<open>recv\<close>:
  \<^verbatim>\<open>
  token_bytes = base64.urlsafe_b64decode(qr_data)
  payload = fernet.decrypt(token_bytes).decode("utf-8")
  roll_no, nonce = payload.split("|")
  roll_no = roll_no.strip()
  \<close>
  Every exception is caught by \<open>except Exception\<close>, so the result is \<open>None\<close>
  when a library call raises and when the split does not give exactly two pieces.
\<close>

definition decode_token :: "libs \<Rightarrow> string \<Rightarrow> (string \<times> string) option" where
  "decode_token L qr_data =
     (case urlsafe_b64decode L qr_data of
        None \<Rightarrow> None
      | Some token_bytes \<Rightarrow>
         (case fernet_decrypt L token_bytes of
            None \<Rightarrow> None
          | Some plain \<Rightarrow>
             (case utf8_decode L plain of
                None \<Rightarrow> None
              | Some payload \<Rightarrow>
                 (case py_split (CHR ''|'') payload of
                    [roll_no, nonce] \<Rightarrow> Some (py_strip roll_no, nonce)
                  | _ \<Rightarrow> None))))"

section \<open>The store (attendance.db)\<close>

text \<open>
  The two tables that \<open>init_db\<close> creates. \<open>students\<close> has \<open>roll_no\<close> as its
  primary key; \<open>attendance\<close> has an autoincremented \<open>id\<close> and no constraint on
  \<open>roll_no\<close>. A table is the list of its rows in insertion order.
\<close>

record student_row =
  roll_no :: string
  name :: string
  email :: string
  token_b64 :: string
  created_at :: string

record attendance_row =
  att_id :: nat
  att_roll_no :: string
  timestamp_iso :: string
  source :: string
  att_note :: string

record db =
  students :: "student_row list"
  attendance :: "attendance_row list"

text \<open>
  \<open>init_db()\<close>: \<open>CREATE TABLE IF NOT EXISTS\<close> twice. \<open>None\<close> is a database
  file without the tables; existing tables keep their rows.
\<close>

definition init_db :: "db option \<Rightarrow> db" where
  "init_db f = (case f of None \<Rightarrow> \<lparr>students = [], attendance = []\<rparr> | Some d \<Rightarrow> d)"

text \<open>
  \<open>save_student_token_db(roll, name, email, token_b64)\<close>: \<open>INSERT OR REPLACE\<close>
  deletes the rows that conflict on the primary key and inserts the new row.
  \<open>created\<close> is the value of \<open>datetime('now')\<close>.
\<close>

definition save_student_token_db ::
  "db \<Rightarrow> string \<Rightarrow> string \<Rightarrow> string \<Rightarrow> string \<Rightarrow> string \<Rightarrow> db" where
  "save_student_token_db d roll nm mail tok created =
     d\<lparr>students :=
         filter (\<lambda>r. roll_no r \<noteq> roll) (students d) @
         [\<lparr>roll_no = roll, name = nm, email = mail, token_b64 = tok, created_at = created\<rparr>]\<rparr>"

text \<open>The dictionary \<open>{"roll_no": .., "name": .., "email": ..}\<close> the lookups return.\<close>

type_synonym student = "string \<times> string \<times> string"

definition student_dict :: "student_row \<Rightarrow> student" where
  "student_dict r = (roll_no r, name r, email r)"

definition get_student_by_roll :: "db \<Rightarrow> string \<Rightarrow> student option" where
  "get_student_by_roll d roll =
     map_option student_dict (find (\<lambda>r. roll_no r = roll) (students d))"

definition get_student_by_token_b64 :: "db \<Rightarrow> string \<Rightarrow> student option" where
  "get_student_by_token_b64 d tok =
     map_option student_dict (find (\<lambda>r. token_b64 r = tok) (students d))"

definition attendance_exists :: "db \<Rightarrow> string \<Rightarrow> bool" where
  "attendance_exists d roll \<longleftrightarrow> roll \<in> set (map att_roll_no (attendance d))"

text \<open>The \<open>INSERT INTO attendance\<close> of \<open>add_attendance\<close>, once it commits.\<close>

definition next_id :: "attendance_row list \<Rightarrow> nat" where
  "next_id rows = Suc (foldr max (map att_id rows) 0)"

definition insert_attendance :: "db \<Rightarrow> string \<Rightarrow> string \<Rightarrow> string \<Rightarrow> string \<Rightarrow> db" where
  "insert_attendance d roll ts src nt =
     d\<lparr>attendance :=
         attendance d @
         [\<lparr>att_id = next_id (attendance d), att_roll_no = roll, timestamp_iso = ts,
           source = src, att_note = nt\<rparr>]\<rparr>"

subsection \<open>\<open>add_attendance\<close>: the retry loop\<close>

text \<open>
  What the surroundings decide for one call of \<open>add_attendance\<close>: \<open>busy k\<close> says
  that attempt number \<open>k\<close> (counted from 0) raises \<open>sqlite3.OperationalError\<close>
  before it commits, and \<open>utcnow k\<close> is the text of
  \<open>datetime.utcnow().isoformat(timespec="seconds")\<close> read in that attempt.
\<close>

record env =
  busy :: "nat \<Rightarrow> bool"
  utcnow :: "nat \<Rightarrow> string"

datatype error = OperationalError

text \<open>
  The store calls and the sleeps of a run, in order. \<open>InsertAttendance\<close> is one
  attempt of the insert, committed or not; \<open>Sleep\<close> is one \<open>time.sleep(0.1)\<close>.
\<close>

datatype call =
    SelectStudentByRoll string
  | SelectStudentByToken string
  | SelectAttendance string
  | InsertAttendance string
  | Sleep

text \<open>
  \<^verbatim>\<open>
  tries = 0
  while True:
      try:
          ... INSERT ...; conn.commit(); conn.close()
          return ts
      except sqlite3.OperationalError as e:
          tries += 1
          if tries > 8:        # 5 in verify_qr_app.py
              raise
          time.sleep(0.1)
  \<close>
  \<open>max_tries\<close> is the constant of the comparison. A failed attempt commits nothing.
\<close>

function add_attendance_from ::
  "nat \<Rightarrow> env \<Rightarrow> db \<Rightarrow> string \<Rightarrow> string \<Rightarrow> string \<Rightarrow> nat
     \<Rightarrow> (error + string) \<times> db \<times> call list" where
  "add_attendance_from max_tries ev d roll src nt tries =
     (if busy ev tries then
        (if Suc tries > max_tries then (Inl OperationalError, d, [InsertAttendance roll])
         else
           (case add_attendance_from max_tries ev d roll src nt (Suc tries) of
              (r, d', calls) \<Rightarrow> (r, d', InsertAttendance roll # Sleep # calls)))
      else
        (let ts = utcnow ev tries @ ''Z''
         in (Inr ts, insert_attendance d roll ts src nt, [InsertAttendance roll])))"
  by pat_completeness auto
termination
  by (relation "measure (\<lambda>(max_tries, ev, d, roll, src, nt, tries). Suc max_tries - tries)") auto

definition add_attendance ::
  "nat \<Rightarrow> env \<Rightarrow> db \<Rightarrow> string \<Rightarrow> string \<Rightarrow> string \<Rightarrow> (error + string) \<times> db \<times> call list" where
  "add_attendance max_tries ev d roll src nt = add_attendance_from max_tries ev d roll src nt 0"

definition max_tries_qr2 :: nat where
  "max_tries_qr2 = 8"

definition max_tries_app :: nat where
  "max_tries_app = 5"

section \<open>The verification engine (\<open>QRTransformer.recv\<close>)\<close>

text \<open>
  What one scanned text leads to. \<open>Suppressed\<close> is the \<open>continue\<close> of the
  throttle; the other four are the toasts of \<open>verify_qr2.py\<close> and the prints of
  \<open>verify_qr_app.py\<close>. An exception that leaves \<open>recv\<close> is the \<open>Inl\<close> of the
  result.
\<close>

datatype outcome =
    Suppressed
  | Invalid
  | Unknown
  | Duplicate string
  | Verified student string string

fun is_verified :: "error + outcome \<Rightarrow> bool" where
  "is_verified (Inr (Verified st roll ts)) = True"
| "is_verified r = False"

text \<open>The instance state of \<open>QRTransformer\<close>: \<open>self.last_seen\<close>.\<close>

record qr_transformer =
  last_seen :: "string \<Rightarrow> real option"

type_synonym verdict = "(error + outcome) \<times> db \<times> call list"

text \<open>
  \<^verbatim>\<open>
  if attendance_exists(roll_no): ... already marked
  else: ts = add_attendance(roll_no, source="webrtc_live") ...
  \<close>
\<close>

definition mark_attendance :: "nat \<Rightarrow> env \<Rightarrow> db \<Rightarrow> student \<Rightarrow> string \<Rightarrow> verdict" where
  "mark_attendance max_tries ev d st roll =
     (if attendance_exists d roll then (Inr (Duplicate roll), d, [SelectAttendance roll])
      else
        (case add_attendance max_tries ev d roll ''webrtc_live'' '''' of
           (Inl e, d', calls) \<Rightarrow> (Inl e, d', SelectAttendance roll # calls)
         | (Inr ts, d', calls) \<Rightarrow>
             (Inr (Verified st roll ts), d', SelectAttendance roll # calls)))"

text \<open>
  \<^verbatim>\<open>
  student = get_student_by_roll(roll_no)
  if not student:
      student = get_student_by_token_b64(qr_data)
      if not student: ... Unknown ...; continue
  \<close>
\<close>

definition lookup_student :: "db \<Rightarrow> string \<Rightarrow> string \<Rightarrow> student option \<times> call list" where
  "lookup_student d roll qr_data =
     (case get_student_by_roll d roll of
        Some st \<Rightarrow> (Some st, [SelectStudentByRoll roll])
      | None \<Rightarrow>
          (get_student_by_token_b64 d qr_data,
           [SelectStudentByRoll roll, SelectStudentByToken qr_data]))"

definition lookup_and_mark :: "nat \<Rightarrow> env \<Rightarrow> db \<Rightarrow> string \<Rightarrow> string \<Rightarrow> verdict" where
  "lookup_and_mark max_tries ev d roll qr_data =
     (case lookup_student d roll qr_data of
        (None, calls) \<Rightarrow> (Inr Unknown, d, calls)
      | (Some st, calls) \<Rightarrow>
          (case mark_attendance max_tries ev d st roll of
             (r, d', calls') \<Rightarrow> (r, d', calls @ calls')))"

definition verify_qr_data :: "nat \<Rightarrow> libs \<Rightarrow> env \<Rightarrow> db \<Rightarrow> string \<Rightarrow> verdict" where
  "verify_qr_data max_tries L ev d qr_data =
     (case decode_token L qr_data of
        None \<Rightarrow> (Inr Invalid, d, [])
      | Some (roll, nonce) \<Rightarrow> lookup_and_mark max_tries ev d roll qr_data)"

text \<open>
  The body of the loop of \<open>recv\<close> for one decoded text, \<open>now\<close> being
  \<open>time.time()\<close>:
  \<^verbatim>\<open>
  if qr_data in self.last_seen and now - self.last_seen[qr_data] < 3:
      continue
  self.last_seen[qr_data] = now
  \<close>
  The times are real numbers; the rounding of the float subtraction is left out.
\<close>

definition throttled :: "qr_transformer \<Rightarrow> real \<Rightarrow> string \<Rightarrow> bool" where
  "throttled t now qr_data =
     (case last_seen t qr_data of None \<Rightarrow> False | Some seen \<Rightarrow> now - seen < 3)"

definition recv_qr_data ::
  "nat \<Rightarrow> libs \<Rightarrow> env \<Rightarrow> qr_transformer \<Rightarrow> db \<Rightarrow> real \<Rightarrow> string
     \<Rightarrow> (error + outcome) \<times> qr_transformer \<times> db \<times> call list" where
  "recv_qr_data max_tries L ev t d now qr_data =
     (if throttled t now qr_data then (Inr Suppressed, t, d, [])
      else
        (let t' = t\<lparr>last_seen := (last_seen t)(qr_data \<mapsto> now)\<rparr>
         in (case verify_qr_data max_tries L ev d qr_data of
               (r, d', calls) \<Rightarrow> (r, t', d', calls))))"

text \<open>
  \<open>recv\<close> for one frame: the loop over the symbols \<open>pyzbar\<close> found. A symbol
  is its data, the \<open>time.time()\<close> read for it and the surroundings of its store
  write. A symbol whose data is not UTF-8 is skipped and a throttled one shows nothing;
  an exception of the store ends the loop and leaves \<open>recv\<close>, the outcomes of the
  symbols before it having been shown.
\<close>

type_synonym symbol = "bytes \<times> real \<times> env"

fun recv ::
  "nat \<Rightarrow> libs \<Rightarrow> qr_transformer \<Rightarrow> db \<Rightarrow> symbol list
     \<Rightarrow> (error option \<times> outcome list) \<times> qr_transformer \<times> db" where
  "recv max_tries L t d [] = ((None, []), t, d)"
| "recv max_tries L t d ((dat, now, ev) # rest) =
     (case utf8_decode L dat of
        None \<Rightarrow> recv max_tries L t d rest
      | Some qr_data \<Rightarrow>
          (case recv_qr_data max_tries L ev t d now qr_data of
             (Inl e, t', d', calls) \<Rightarrow> ((Some e, []), t', d')
           | (Inr out, t', d', calls) \<Rightarrow>
               (case recv max_tries L t' d' rest of
                  ((e, outs), t'', d'') \<Rightarrow>
                    ((e, if out = Suppressed then outs else out # outs), t'', d''))))"

text \<open>
  A scanning session: one text per frame, each handled to its end before the next; an
  exception ends its frame only.
\<close>

type_synonym scan = "string \<times> real \<times> env"

fun recv_all :: "nat \<Rightarrow> libs \<Rightarrow> qr_transformer \<Rightarrow> db \<Rightarrow> scan list \<Rightarrow> qr_transformer \<times> db" where
  "recv_all max_tries L t d [] = (t, d)"
| "recv_all max_tries L t d ((qr_data, now, ev) # rest) =
     (case recv_qr_data max_tries L ev t d now qr_data of
        (r, t', d', calls) \<Rightarrow> recv_all max_tries L t' d' rest)"

section \<open>Issuing (the loop of \<open>main\<close>)\<close>

text \<open>
  One row of \<open>students.csv\<close> with what the surroundings give for it: the bytes of
  \<open>os.urandom(6)\<close> and the text of \<open>datetime('now')\<close>. The body of the loop
  strips the three fields, makes the token and saves it; writing the image and sending
  the mail do not touch the store.
\<close>

record csv_row =
  csv_name :: string
  csv_roll_no :: string
  csv_email :: string
  urandom :: bytes
  saved_at :: string

definition issue_row :: "libs \<Rightarrow> db \<Rightarrow> csv_row \<Rightarrow> db" where
  "issue_row L d row =
     (let nm = py_strip (csv_name row);
          roll = py_strip (csv_roll_no row);
          mail = py_strip (csv_email row);
          token = make_token L (urandom row) roll;
          tok_b64 = generate_qr_image_from_token token
      in save_student_token_db d roll nm mail tok_b64 (saved_at row))"

definition issue_all :: "libs \<Rightarrow> db \<Rightarrow> csv_row list \<Rightarrow> db" where
  "issue_all L d rows = foldl (issue_row L) d rows"

section \<open>Calls of \<open>recv\<close> that overlap in time\<close>

text \<open>
  Every helper of the store opens a connection of its own, runs one statement and closes
  it; nothing is held between two helpers. So between two store calls of one \<open>recv\<close>
  the store calls of another may run. A thread is one call of \<open>recv\<close> on one text,
  past the throttle; a step takes it to the end of its next store call. The failed
  attempts of \<open>add_attendance\<close> change nothing, so the whole call is one step.
\<close>

datatype pc =
    AtDecode
  | AtLookupRoll string
  | AtLookupToken string
  | AtExists student string
  | AtAdd student string
  | Finished "error + outcome"

record thread =
  th_qr_data :: string
  th_env :: env
  th_pc :: pc

definition thread_step :: "nat \<Rightarrow> libs \<Rightarrow> db \<Rightarrow> thread \<Rightarrow> db \<times> thread" where
  "thread_step max_tries L d th =
     (case th_pc th of
        AtDecode \<Rightarrow>
          (case decode_token L (th_qr_data th) of
             None \<Rightarrow> (d, th\<lparr>th_pc := Finished (Inr Invalid)\<rparr>)
           | Some (roll, nonce) \<Rightarrow> (d, th\<lparr>th_pc := AtLookupRoll roll\<rparr>))
      | AtLookupRoll roll \<Rightarrow>
          (case get_student_by_roll d roll of
             Some st \<Rightarrow> (d, th\<lparr>th_pc := AtExists st roll\<rparr>)
           | None \<Rightarrow> (d, th\<lparr>th_pc := AtLookupToken roll\<rparr>))
      | AtLookupToken roll \<Rightarrow>
          (case get_student_by_token_b64 d (th_qr_data th) of
             None \<Rightarrow> (d, th\<lparr>th_pc := Finished (Inr Unknown)\<rparr>)
           | Some st \<Rightarrow> (d, th\<lparr>th_pc := AtExists st roll\<rparr>))
      | AtExists st roll \<Rightarrow>
          (if attendance_exists d roll then (d, th\<lparr>th_pc := Finished (Inr (Duplicate roll))\<rparr>)
           else (d, th\<lparr>th_pc := AtAdd st roll\<rparr>))
      | AtAdd st roll \<Rightarrow>
          (case add_attendance max_tries (th_env th) d roll ''webrtc_live'' '''' of
             (Inl e, d', calls) \<Rightarrow> (d', th\<lparr>th_pc := Finished (Inl e)\<rparr>)
           | (Inr ts, d', calls) \<Rightarrow> (d', th\<lparr>th_pc := Finished (Inr (Verified st roll ts))\<rparr>))
      | Finished r \<Rightarrow> (d, th))"

text \<open>A schedule names, step by step, the thread that moves.\<close>

fun run_schedule :: "nat \<Rightarrow> libs \<Rightarrow> nat list \<Rightarrow> db \<times> thread list \<Rightarrow> db \<times> thread list" where
  "run_schedule max_tries L [] s = s"
| "run_schedule max_tries L (i # sched) (d, ths) =
     (if i < length ths then
        (case thread_step max_tries L d (ths ! i) of
           (d', th') \<Rightarrow> run_schedule max_tries L sched (d', ths[i := th']))
      else run_schedule max_tries L sched (d, ths))"

definition start_thread :: "string \<Rightarrow> env \<Rightarrow> thread" where
  "start_thread qr_data ev = \<lparr>th_qr_data = qr_data, th_env = ev, th_pc = AtDecode\<rparr>"

text \<open>
  A call is over after five steps at most. The schedule that lets each of \<open>n\<close>
  calls run to its end before the next one starts:
\<close>

definition sequential_schedule :: "nat \<Rightarrow> nat list" where
  "sequential_schedule n = concat (map (replicate 5) [0..<n])"

definition start_threads :: "(string \<times> env) list \<Rightarrow> thread list" where
  "start_threads calls = map (\<lambda>(qr_data, ev). start_thread qr_data ev) calls"

text \<open>
  Calls of \<open>recv\<close> one after the other, each on an instance whose throttle lets the
  text pass: the outcomes in order and the store at the end.
\<close>

fun verify_each ::
  "nat \<Rightarrow> libs \<Rightarrow> db \<Rightarrow> (string \<times> env) list \<Rightarrow> (error + outcome) list \<times> db" where
  "verify_each max_tries L d [] = ([], d)"
| "verify_each max_tries L d ((qr_data, ev) # rest) =
     (case verify_qr_data max_tries L ev d qr_data of
        (r, d', calls) \<Rightarrow>
          (case verify_each max_tries L d' rest of (rs, d'') \<Rightarrow> (r # rs, d'')))"

section \<open>The operations on the store\<close>

text \<open>
  Everything the three programs do to \<open>attendance.db\<close>: \<open>init_db\<close>, the upsert of
  the issuing script, \<open>add_attendance\<close>, a scanned text handled by \<open>recv\<close>, one
  step of an overlapping \<open>recv\<close>, and the reads (the lookups, \<open>attendance_exists\<close>
  and the \<open>SELECT\<close>s of the admin page).
\<close>

datatype op =
    OpInitDb
  | OpSaveStudent string string string string string
  | OpAddAttendance env string string string
  | OpRecv libs env qr_transformer real string
  | OpThreadStep libs thread
  | OpRead

fun apply_op :: "nat \<Rightarrow> db \<Rightarrow> op \<Rightarrow> db" where
  "apply_op max_tries d OpInitDb = init_db (Some d)"
| "apply_op max_tries d (OpSaveStudent roll nm mail tok created) =
     save_student_token_db d roll nm mail tok created"
| "apply_op max_tries d (OpAddAttendance ev roll src nt) =
     fst (snd (add_attendance max_tries ev d roll src nt))"
| "apply_op max_tries d (OpRecv L ev t now qr_data) =
     fst (snd (snd (recv_qr_data max_tries L ev t d now qr_data)))"
| "apply_op max_tries d (OpThreadStep L th) = fst (thread_step max_tries L d th)"
| "apply_op max_tries d OpRead = d"

section \<open>Reference libraries\<close>

text \<open>
  One instance of the library parameters, for the worked examples: a strict base64
  decoder, UTF-8 on the code points below 256, and a stand-in for the cipher that only
  frames the plaintext with the version byte 0x80 of a Fernet token.
\<close>

fun index_of :: "'a \<Rightarrow> 'a list \<Rightarrow> nat option" where
  "index_of x [] = None"
| "index_of x (y # ys) = (if x = y then Some 0 else map_option Suc (index_of x ys))"

definition b64_byte0 :: "nat \<Rightarrow> nat \<Rightarrow> byte" where
  "b64_byte0 i0 i1 = of_nat (i0 * 4 + i1 div 16)"

definition b64_byte1 :: "nat \<Rightarrow> nat \<Rightarrow> byte" where
  "b64_byte1 i1 i2 = of_nat ((i1 mod 16) * 16 + i2 div 4)"

definition b64_byte2 :: "nat \<Rightarrow> nat \<Rightarrow> byte" where
  "b64_byte2 i2 i3 = of_nat ((i2 mod 4) * 64 + i3)"

fun b64_decode_ref :: "string \<Rightarrow> bytes option" where
  "b64_decode_ref [] = Some []"
| "b64_decode_ref (c0 # c1 # c2 # c3 # rest) =
     (case (index_of c0 b64_alphabet, index_of c1 b64_alphabet) of
        (Some i0, Some i1) \<Rightarrow>
          (if c2 = CHR ''='' then
             (if c3 = CHR ''='' \<and> rest = [] then Some [b64_byte0 i0 i1] else None)
           else
             (case index_of c2 b64_alphabet of
                None \<Rightarrow> None
              | Some i2 \<Rightarrow>
                 (if c3 = CHR ''='' then
                    (if rest = [] then Some [b64_byte0 i0 i1, b64_byte1 i1 i2] else None)
                  else
                    (case index_of c3 b64_alphabet of
                       None \<Rightarrow> None
                     | Some i3 \<Rightarrow>
                        map_option
                          (\<lambda>bs. [b64_byte0 i0 i1, b64_byte1 i1 i2, b64_byte2 i2 i3] @ bs)
                          (b64_decode_ref rest)))))
      | _ \<Rightarrow> None)"
| "b64_decode_ref _ = None"

definition utf8_char_ref :: "char \<Rightarrow> bytes" where
  "utf8_char_ref c =
     (let n = of_char c :: nat
      in if n < 128 then [of_nat n] else [of_nat (192 + n div 64), of_nat (128 + n mod 64)])"

definition utf8_encode_ref :: "string \<Rightarrow> bytes" where
  "utf8_encode_ref s = concat (map utf8_char_ref s)"

fun utf8_decode_ref :: "bytes \<Rightarrow> string option" where
  "utf8_decode_ref [] = Some []"
| "utf8_decode_ref [b] =
     (if unat b < 128 then Some [char_of (unat b)] else None)"
| "utf8_decode_ref (b # b2 # rest) =
     (if unat b < 128 then map_option ((#) (char_of (unat b))) (utf8_decode_ref (b2 # rest))
      else if 194 \<le> unat b \<and> unat b < 196 \<and> 128 \<le> unat b2 \<and> unat b2 < 192 then
        map_option ((#) (char_of ((unat b - 192) * 64 + (unat b2 - 128)))) (utf8_decode_ref rest)
      else None)"

definition frame_encrypt :: "bytes \<Rightarrow> bytes" where
  "frame_encrypt p = 128 # p"

definition frame_decrypt :: "bytes \<Rightarrow> bytes option" where
  "frame_decrypt t = (case t of [] \<Rightarrow> None | v # p \<Rightarrow> if v = 128 then Some p else None)"

definition ref_libs :: libs where
  "ref_libs =
     \<lparr>urlsafe_b64decode = b64_decode_ref,
      fernet_encrypt = frame_encrypt,
      fernet_decrypt = frame_decrypt,
      utf8_encode = utf8_encode_ref,
      utf8_decode = utf8_decode_ref\<rparr>"

section \<open>A worked example\<close>

text \<open>
  One student issued by \<open>main\<close> into a fresh database, the text of her QR code, a
  new \<open>QRTransformer\<close>, a store that is never busy and one that always is.
\<close>

definition demo_row :: csv_row where
  "demo_row =
     \<lparr>csv_name = ''Asha '', csv_roll_no = '' R001'', csv_email = ''asha@example.org'',
      urandom = [1, 2, 3, 4, 5, 6], saved_at = ''2025-01-01 10:00:00''\<rparr>"

definition demo_db :: db where
  "demo_db = issue_all ref_libs (init_db None) [demo_row]"

definition demo_qr :: string where
  "demo_qr = generate_qr_image_from_token (make_token ref_libs [1, 2, 3, 4, 5, 6] ''R001'')"

definition new_transformer :: qr_transformer where
  "new_transformer = \<lparr>last_seen = Map.empty\<rparr>"

definition quiet_env :: env where
  "quiet_env = \<lparr>busy = (\<lambda>k. False), utcnow = (\<lambda>k. ''2025-01-01T18:30:00'')\<rparr>"

definition locked_env :: env where
  "locked_env = \<lparr>busy = (\<lambda>k. True), utcnow = (\<lambda>k. ''2025-01-01T18:30:00'')\<rparr>"

text \<open>
  A store that is busy at the first two attempts of a write and free at the third, read
  a second later. Two more students tables: one with another student only, and one
  whose row for the text of \<open>demo_qr\<close> has the roll number in another spelling.
\<close>

definition flaky_env :: env where
  "flaky_env =
     \<lparr>busy = (\<lambda>k. k < 2),
      utcnow = (\<lambda>k. if k < 2 then ''2025-01-01T18:30:00'' else ''2025-01-01T18:30:01'')\<rparr>"

definition other_db :: db where
  "other_db =
     save_student_token_db (init_db None) ''R002'' ''Ravi'' ''ravi@example.org''
       (encode_token ref_libs ''R002'' ''bmV3bm9uY2U='') ''2025-01-01 10:00:01''"

definition relabelled_db :: db where
  "relabelled_db =
     save_student_token_db (init_db None) ''r001'' ''Asha'' ''asha@example.org''
       demo_qr ''2025-01-01 10:00:00''"

section \<open>Facts about the encodings\<close>

subsection \<open>Base64\<close>

lemma index_of_nth: "distinct xs \<Longrightarrow> i < length xs \<Longrightarrow> index_of (xs ! i) xs = Some i"
proof (induction xs arbitrary: i)
  case Nil
  then show ?case by simp
next
  case (Cons y ys)
  show ?case
  proof (cases i)
    case 0
    then show ?thesis by simp
  next
    case (Suc j)
    with Cons.prems have "ys ! j \<in> set ys" "y \<notin> set ys" "j < length ys" "distinct ys" by auto
    then show ?thesis using Cons.IH[of j] Suc by auto
  qed
qed

lemma length_b64_alphabet: "length b64_alphabet = 64"
  by (simp add: b64_alphabet_def)

lemma distinct_b64_alphabet: "distinct b64_alphabet"
  by (simp add: b64_alphabet_def)

lemma b64_char_in: "b64_char n \<in> set b64_alphabet"
  unfolding b64_char_def by (rule nth_mem) (simp add: length_b64_alphabet)

lemma index_b64_char: "n < 64 \<Longrightarrow> index_of (b64_char n) b64_alphabet = Some n"
  unfolding b64_char_def using index_of_nth[OF distinct_b64_alphabet, of n]
  by (simp add: length_b64_alphabet)

lemma eq_notin_alphabet: "CHR ''='' \<notin> set b64_alphabet"
  by (simp add: b64_alphabet_def)

lemma bar_notin_alphabet: "CHR ''|'' \<notin> set b64_alphabet"
  by (simp add: b64_alphabet_def)

lemma b64_char_neq_pad: "b64_char n \<noteq> CHR ''=''"
  using b64_char_in[of n] eq_notin_alphabet by metis

lemma set_urlsafe_b64encode:
  "set (urlsafe_b64encode bs) \<subseteq> insert (CHR ''='') (set b64_alphabet)"
  by (induction bs rule: urlsafe_b64encode.induct) (auto simp: b64_char_in)

lemma byte_lt: "unat a < 256" for a :: byte
  using unsigned_less[of a, where 'a = nat] by simp

lemma byte1: "b64_byte0 (unat a div 4) ((unat a mod 4) * 16 + unat b div 16) = a" for a b :: byte
proof -
  have "unat b div 16 < 16" using byte_lt[of b] by simp
  then have "unat a div 4 * 4 + ((unat a mod 4) * 16 + unat b div 16) div 16 = unat a" by simp
  then show ?thesis unfolding b64_byte0_def by simp
qed

lemma byte1': "b64_byte0 (unat a div 4) ((unat a mod 4) * 16) = a" for a :: byte
proof -
  have "unat a div 4 * 4 + ((unat a mod 4) * 16) div 16 = unat a" by simp
  then show ?thesis unfolding b64_byte0_def by simp
qed

lemma byte2: "b64_byte1 ((unat a mod 4) * 16 + unat b div 16) ((unat b mod 16) * 4 + unat c div 64) = b"
  for a b c :: byte
proof -
  have "unat c div 64 < 4" "unat b div 16 < 16" using byte_lt[of c] byte_lt[of b] by simp_all
  then have "(((unat a mod 4) * 16 + unat b div 16) mod 16) * 16
    + ((unat b mod 16) * 4 + unat c div 64) div 4 = unat b" by simp
  then show ?thesis unfolding b64_byte1_def by simp
qed

lemma byte2': "b64_byte1 ((unat a mod 4) * 16 + unat b div 16) ((unat b mod 16) * 4) = b"
  for a b :: byte
proof -
  have "unat b div 16 < 16" using byte_lt[of b] by simp_all
  then have "(((unat a mod 4) * 16 + unat b div 16) mod 16) * 16
    + ((unat b mod 16) * 4) div 4 = unat b" by simp
  then show ?thesis unfolding b64_byte1_def by simp
qed

lemma byte3: "b64_byte2 ((unat b mod 16) * 4 + unat c div 64) (unat c mod 64) = c" for b c :: byte
proof -
  have "unat c div 64 < 4" using byte_lt[of c] by simp_all
  then have "(((unat b mod 16) * 4 + unat c div 64) mod 4) * 64 + unat c mod 64 = unat c" by simp
  then show ?thesis unfolding b64_byte2_def by simp
qed

lemma sextets:
  "unat (a::byte) div 4 < 64" "(unat a mod 4) * 16 + unat (b::byte) div 16 < 64"
  "(unat b mod 16) * 4 + unat (c::byte) div 64 < 64" "unat c mod 64 < 64"
  "(unat a mod 4) * 16 < 64" "(unat b mod 16) * 4 < 64"
  using byte_lt[of a] byte_lt[of b] byte_lt[of c] by simp_all

lemma b64_roundtrip: "b64_decode_ref (urlsafe_b64encode bs) = Some bs"
proof (induction bs rule: urlsafe_b64encode.induct)
  case (1 a b c rest)
  then show ?case
    by (simp add: index_b64_char sextets b64_char_neq_pad byte1 byte2 byte3)
next
  case (2 a b)
  then show ?case
    by (simp add: index_b64_char sextets b64_char_neq_pad byte1 byte2')
next
  case (3 a)
  then show ?case
    by (simp add: index_b64_char sextets b64_char_neq_pad byte1')
next
  case 4
  then show ?case by simp
qed

subsection \<open>Splitting and stripping\<close>

lemma py_split_nonempty: "py_split sep s \<noteq> []"
  by (induction s) (auto split: list.splits)

lemma py_split_no_sep: "sep \<notin> set s \<Longrightarrow> py_split sep s = [s]"
  by (induction s) auto

lemma py_split_append:
  "sep \<notin> set a \<Longrightarrow> py_split sep (a @ sep # b) = a # py_split sep b"
  by (induction a) auto

lemma length_py_split: "length (py_split sep s) = Suc (count_list s sep)"
  by (induction s) (auto split: list.splits simp: py_split_nonempty)

lemma count_list_payload:
  "count_list (make_payload roll nonce) (CHR ''|'') =
     Suc (count_list roll (CHR ''|'') + count_list nonce (CHR ''|''))"
  by (simp add: make_payload_def)

lemma py_split_payload:
  "CHR ''|'' \<notin> set roll \<Longrightarrow> CHR ''|'' \<notin> set nonce \<Longrightarrow>
     py_split (CHR ''|'') (make_payload roll nonce) = [roll, nonce]"
  by (simp add: make_payload_def py_split_append py_split_no_sep)

lemma py_split_payload_many:
  assumes "CHR ''|'' \<in> set roll \<union> set nonce"
  shows "length (py_split (CHR ''|'') (make_payload roll nonce)) \<noteq> 2"
proof -
  from assms have "0 < count_list roll (CHR ''|'') + count_list nonce (CHR ''|'')"
    by (auto simp: count_list_0_iff intro: Nat.gr0I)
  then show ?thesis
    by (simp add: length_py_split count_list_payload)
qed





lemma decode_token_encode_token:
  assumes "libs_ok L"
  shows "decode_token L (encode_token L roll nonce) =
           (if CHR ''|'' \<in> set roll \<union> set nonce then None else Some (py_strip roll, nonce))"
proof (cases "CHR ''|'' \<in> set roll \<union> set nonce")
  case True
  then have "length (py_split (CHR ''|'') (make_payload roll nonce)) \<noteq> 2"
    by (rule py_split_payload_many)
  then have "(case py_split (CHR ''|'') (make_payload roll nonce) of
                [r, n] \<Rightarrow> Some (py_strip r, n) | _ \<Rightarrow> None) = None"
    by (auto split: list.splits)
  with assms True show ?thesis
    by (simp add: libs_ok_def decode_token_def encode_token_def generate_qr_image_from_token_def)
next
  case False
  then have "py_split (CHR ''|'') (make_payload roll nonce) = [roll, nonce]"
    by (simp add: py_split_payload)
  with assms False show ?thesis
    by (simp add: libs_ok_def decode_token_def encode_token_def generate_qr_image_from_token_def)
qed

lemma make_token_encode_token:
  "generate_qr_image_from_token (make_token L rnd roll) = encode_token L roll (make_nonce rnd)"
  by (simp add: make_token_def encode_token_def)

lemma bar_notin_nonce: "CHR ''|'' \<notin> set (make_nonce rnd)"
  using set_urlsafe_b64encode[of rnd] bar_notin_alphabet by (auto simp: make_nonce_def)

subsection \<open>The reference libraries are libraries\<close>

lemma utf8_decode_ref_ascii:
  "unat b < 128 \<Longrightarrow>
     utf8_decode_ref (b # bs) = map_option ((#) (char_of (unat b))) (utf8_decode_ref bs)"
  by (cases bs) auto

lemma unat_byte_of_nat: "n < 256 \<Longrightarrow> unat (of_nat n :: byte) = n"
  by (simp add: unat_of_nat)

lemma utf8_ref_roundtrip: "utf8_decode_ref (utf8_encode_ref s) = Some s"
proof (induction s)
  case Nil
  then show ?case by (simp add: utf8_encode_ref_def)
next
  case (Cons c cs)
  let ?n = "of_char c :: nat"
  have n: "?n < 256" by simp
  have IH: "utf8_decode_ref (concat (map utf8_char_ref cs)) = Some cs"
    using Cons.IH by (simp add: utf8_encode_ref_def)
  show ?case
  proof (cases "?n < 128")
    case True
    then have "unat (of_nat ?n :: byte) = ?n" by (simp add: unat_byte_of_nat)
    with True IH show ?thesis
      by (simp add: utf8_encode_ref_def utf8_char_ref_def utf8_decode_ref_ascii)
  next
    case False
    have d: "?n div 64 < 4" by (rule less_mult_imp_div_less) simp
    have u1: "unat (of_nat (192 + ?n div 64) :: byte) = 192 + ?n div 64"
      using d by (intro unat_byte_of_nat) simp
    have u2: "unat (of_nat (128 + ?n mod 64) :: byte) = 128 + ?n mod 64"
      by (intro unat_byte_of_nat) simp
    have ge: "2 \<le> ?n div 64" using False by simp
    have rebuilt: "(192 + ?n div 64 - 192) * 64 + (128 + ?n mod 64 - 128) = ?n" by simp
    have "utf8_decode_ref (of_nat (192 + ?n div 64) # of_nat (128 + ?n mod 64) #
            concat (map utf8_char_ref cs)) = Some (char_of ?n # cs)"
      using d ge IH by (simp only: utf8_decode_ref.simps u1 u2 rebuilt) simp
    with False show ?thesis
      by (simp add: utf8_encode_ref_def utf8_char_ref_def Let_def)
  qed
qed

lemma libs_ok_ref_libs: "libs_ok ref_libs"
  by (simp add: libs_ok_def ref_libs_def b64_roundtrip utf8_ref_roundtrip
      frame_encrypt_def frame_decrypt_def)

section \<open>The token codec\<close>




text \<open>
  Claim C10. The nonce of \<open>make_token\<close> is URL-safe base64 text, so it has no \<open>|\<close>
  in it. Hence, for every identifier without \<open>|\<close>: the payload that decrypts from an
  issued token has exactly one separator, splits into exactly the identifier and the
  nonce, and the scanned text of the token decodes.
\<close>

theorem issued_payload_splits:
  assumes "libs_ok L" and "CHR ''|'' \<notin> set roll"
  shows "set (make_nonce rnd) \<subseteq> insert (CHR ''='') (set b64_alphabet)
       \<and> CHR ''|'' \<notin> set (make_nonce rnd)
       \<and> (case fernet_decrypt L (make_token L rnd roll) of
             None \<Rightarrow> None
           | Some plain \<Rightarrow> utf8_decode L plain) = Some (make_payload roll (make_nonce rnd))
       \<and> count_list (make_payload roll (make_nonce rnd)) (CHR ''|'') = 1
       \<and> py_split (CHR ''|'') (make_payload roll (make_nonce rnd)) = [roll, make_nonce rnd]
       \<and> decode_token L (generate_qr_image_from_token (make_token L rnd roll)) =
             Some (py_strip roll, make_nonce rnd)"
proof -
  have alphabet: "set (make_nonce rnd) \<subseteq> insert (CHR ''='') (set b64_alphabet)"
    unfolding make_nonce_def by (rule set_urlsafe_b64encode)
  have nonce: "CHR ''|'' \<notin> set (make_nonce rnd)"
    by (rule bar_notin_nonce)
  have decrypted: "(case fernet_decrypt L (make_token L rnd roll) of
             None \<Rightarrow> None
           | Some plain \<Rightarrow> utf8_decode L plain) = Some (make_payload roll (make_nonce rnd))"
    using assms(1) by (simp add: libs_ok_def make_token_def)
  have one: "count_list (make_payload roll (make_nonce rnd)) (CHR ''|'') = 1"
    using assms(2) nonce by (simp add: count_list_payload count_list_0_iff)
  have two: "py_split (CHR ''|'') (make_payload roll (make_nonce rnd)) = [roll, make_nonce rnd]"
    using assms(2) nonce by (rule py_split_payload)
  have decoded: "decode_token L (generate_qr_image_from_token (make_token L rnd roll)) =
             Some (py_strip roll, make_nonce rnd)"
    using assms(2) nonce decode_token_encode_token[OF assms(1), of roll "make_nonce rnd"]
    by (simp add: make_token_encode_token)
  from alphabet nonce decrypted one two decoded show ?thesis by blast
qed

theorem issued_payload_splits_witness:
  "libs_ok ref_libs \<and> CHR ''|'' \<notin> set ''R001''
   \<and> CHR ''|'' \<notin> set (make_nonce [1, 2, 3, 4, 5, 6])
   \<and> count_list (make_payload ''R001'' (make_nonce [1, 2, 3, 4, 5, 6])) (CHR ''|'') = 1
   \<and> py_split (CHR ''|'') (make_payload ''R001'' (make_nonce [1, 2, 3, 4, 5, 6])) =
        [''R001'', make_nonce [1, 2, 3, 4, 5, 6]]
   \<and> decode_token ref_libs
        (generate_qr_image_from_token (make_token ref_libs [1, 2, 3, 4, 5, 6] ''R001'')) =
        Some (py_strip ''R001'', make_nonce [1, 2, 3, 4, 5, 6])"
proof -
  have clean: "CHR ''|'' \<notin> set ''R001''" by simp
  show ?thesis
    using issued_payload_splits[OF libs_ok_ref_libs clean, of "[1, 2, 3, 4, 5, 6]"]
      libs_ok_ref_libs clean
    by blast
qed

section \<open>Facts about the store\<close>

declare add_attendance_from.simps [simp del]

lemma add_attendance_from_exhausted:
  assumes "\<forall>i. k \<le> i \<and> i \<le> m \<longrightarrow> busy ev i" and "k \<le> m"
  shows "add_attendance_from m ev d roll src nt k =
           (Inl OperationalError, d,
            concat (replicate (m - k) [InsertAttendance roll, Sleep]) @ [InsertAttendance roll])"
  using assms
proof (induction "m - k" arbitrary: k)
  case 0
  then have "k = m" by simp
  with "0.prems" show ?case
    by (subst add_attendance_from.simps) simp
next
  case (Suc n)
  then have lt: "k < m" and n: "n = m - Suc k" by simp_all
  from Suc.prems have busy: "busy ev k" by simp
  have rest: "add_attendance_from m ev d roll src nt (Suc k) =
           (Inl OperationalError, d,
            concat (replicate (m - Suc k) [InsertAttendance roll, Sleep]) @ [InsertAttendance roll])"
    using Suc.hyps(1)[OF n] Suc.prems lt by simp
  have "m - k = Suc (m - Suc k)" using lt by simp
  with busy lt rest show ?case
    by (subst add_attendance_from.simps) simp
qed

lemma add_attendance_from_commits:
  assumes "k \<le> j" and "j \<le> m" and "\<forall>i. k \<le> i \<and> i < j \<longrightarrow> busy ev i" and "\<not> busy ev j"
  shows "add_attendance_from m ev d roll src nt k =
           (Inr (utcnow ev j @ ''Z''),
            insert_attendance d roll (utcnow ev j @ ''Z'') src nt,
            concat (replicate (j - k) [InsertAttendance roll, Sleep]) @ [InsertAttendance roll])"
  using assms
proof (induction "j - k" arbitrary: k)
  case 0
  then have "k = j" by simp
  with "0.prems" show ?case
    by (subst add_attendance_from.simps) (simp add: Let_def)
next
  case (Suc n)
  then have lt: "k < j" and n: "n = j - Suc k" by simp_all
  from Suc.prems lt have busy: "busy ev k" by simp
  have rest: "add_attendance_from m ev d roll src nt (Suc k) =
           (Inr (utcnow ev j @ ''Z''),
            insert_attendance d roll (utcnow ev j @ ''Z'') src nt,
            concat (replicate (j - Suc k) [InsertAttendance roll, Sleep]) @ [InsertAttendance roll])"
    using Suc.hyps(1)[OF n] Suc.prems lt by simp
  have "j - k = Suc (j - Suc k)" using lt by simp
  moreover have "\<not> Suc k > m" using lt Suc.prems by simp
  ultimately show ?case using busy rest
    by (subst add_attendance_from.simps) simp
qed

text \<open>Either some attempt within the budget commits, or all of them are busy.\<close>

lemma add_attendance_cases:
  obtains (commits) j where "j \<le> m" "\<forall>i<j. busy ev i" "\<not> busy ev j"
      "add_attendance m ev d roll src nt =
         (Inr (utcnow ev j @ ''Z''), insert_attendance d roll (utcnow ev j @ ''Z'') src nt,
          concat (replicate j [InsertAttendance roll, Sleep]) @ [InsertAttendance roll])"
  | (exhausted) "\<forall>i\<le>m. busy ev i"
      "add_attendance m ev d roll src nt =
         (Inl OperationalError, d,
          concat (replicate m [InsertAttendance roll, Sleep]) @ [InsertAttendance roll])"
proof (cases "\<forall>i\<le>m. busy ev i")
  case True
  then have "add_attendance m ev d roll src nt =
         (Inl OperationalError, d,
          concat (replicate m [InsertAttendance roll, Sleep]) @ [InsertAttendance roll])"
    using add_attendance_from_exhausted[of 0 m ev d roll src nt]
    by (simp add: add_attendance_def)
  with True show ?thesis by (rule exhausted)
next
  case False
  define j where "j = (LEAST i. \<not> busy ev i)"
  from False obtain i where i: "i \<le> m" "\<not> busy ev i" by auto
  then have nb: "\<not> busy ev j" unfolding j_def by (metis LeastI)
  have le: "j \<le> i" unfolding j_def using i(2) by (rule Least_le)
  have before: "\<forall>i<j. busy ev i" unfolding j_def using not_less_Least by blast
  have "add_attendance m ev d roll src nt =
         (Inr (utcnow ev j @ ''Z''), insert_attendance d roll (utcnow ev j @ ''Z'') src nt,
          concat (replicate j [InsertAttendance roll, Sleep]) @ [InsertAttendance roll])"
    using add_attendance_from_commits[of 0 j m ev d roll src nt] le i(1) before nb
    by (simp add: add_attendance_def)
  with le i(1) before nb show ?thesis by (intro commits[of j]) auto
qed

lemma students_insert_attendance [simp]:
  "students (insert_attendance d roll ts src nt) = students d"
  by (simp add: insert_attendance_def)

lemma attendance_insert_attendance:
  "attendance (insert_attendance d roll ts src nt) =
     attendance d @ [\<lparr>att_id = next_id (attendance d), att_roll_no = roll, timestamp_iso = ts,
                      source = src, att_note = nt\<rparr>]"
  by (simp add: insert_attendance_def)

lemma attendance_exists_insert [simp]:
  "attendance_exists (insert_attendance d roll ts src nt) r \<longleftrightarrow> r = roll \<or> attendance_exists d r"
  by (auto simp: attendance_exists_def insert_attendance_def)

lemma insert_attendance_neq: "insert_attendance d roll ts src nt \<noteq> d"
proof
  assume "insert_attendance d roll ts src nt = d"
  then have "length (attendance (insert_attendance d roll ts src nt)) = length (attendance d)"
    by simp
  then show False by (simp add: insert_attendance_def)
qed

section \<open>Facts about the engine\<close>

lemma mark_attendance_cases:
  obtains (duplicate) "attendance_exists d roll"
      "mark_attendance m ev d st roll = (Inr (Duplicate roll), d, [SelectAttendance roll])"
  | (verified) j where "\<not> attendance_exists d roll" "j \<le> m" "\<forall>i<j. busy ev i" "\<not> busy ev j"
      "mark_attendance m ev d st roll =
         (Inr (Verified st roll (utcnow ev j @ ''Z'')),
          insert_attendance d roll (utcnow ev j @ ''Z'') ''webrtc_live'' '''',
          SelectAttendance roll #
          concat (replicate j [InsertAttendance roll, Sleep]) @ [InsertAttendance roll])"
  | (raised) "\<not> attendance_exists d roll" "\<forall>i\<le>m. busy ev i"
      "mark_attendance m ev d st roll =
         (Inl OperationalError, d,
          SelectAttendance roll #
          concat (replicate m [InsertAttendance roll, Sleep]) @ [InsertAttendance roll])"
proof (cases "attendance_exists d roll")
  case True
  then show ?thesis by (intro duplicate) (simp_all add: mark_attendance_def)
next
  case False
  show ?thesis
  proof (rule add_attendance_cases[where m = m and ev = ev and d = d and roll = roll
        and src = "''webrtc_live''" and nt = "''''"])
    fix j
    assume "j \<le> m" "\<forall>i<j. busy ev i" "\<not> busy ev j"
      "add_attendance m ev d roll ''webrtc_live'' '''' =
         (Inr (utcnow ev j @ ''Z''),
          insert_attendance d roll (utcnow ev j @ ''Z'') ''webrtc_live'' '''',
          concat (replicate j [InsertAttendance roll, Sleep]) @ [InsertAttendance roll])"
    with False show ?thesis by (intro verified[of j]) (simp_all add: mark_attendance_def)
  next
    assume "\<forall>i\<le>m. busy ev i"
      "add_attendance m ev d roll ''webrtc_live'' '''' =
         (Inl OperationalError, d,
          concat (replicate m [InsertAttendance roll, Sleep]) @ [InsertAttendance roll])"
    with False show ?thesis by (intro raised) (simp_all add: mark_attendance_def)
  qed
qed

lemma mark_attendance_effect:
  "case mark_attendance m ev d st roll of (r, d', calls) \<Rightarrow>
     r \<noteq> Inr Suppressed \<and> r \<noteq> Inr Invalid \<and> r \<noteq> Inr Unknown \<and>
     (if is_verified r
      then \<exists>ts. r = Inr (Verified st roll ts) \<and> \<not> attendance_exists d roll \<and>
             d' = insert_attendance d roll ts ''webrtc_live'' ''''
      else d' = d \<and> (r = Inl OperationalError \<or> r = Inr (Duplicate roll)))"
  by (rule mark_attendance_cases[where d = d and roll = roll and m = m and ev = ev and st = st])
    simp_all

lemma verify_qr_data_effect:
  "case verify_qr_data m L ev d q of (r, d', calls) \<Rightarrow>
     r \<noteq> Inr Suppressed \<and>
     (if is_verified r
      then \<exists>st roll ts. r = Inr (Verified st roll ts) \<and> \<not> attendance_exists d roll \<and>
             d' = insert_attendance d roll ts ''webrtc_live'' ''''
      else d' = d)"
proof (cases "decode_token L q")
  case None
  then show ?thesis by (simp add: verify_qr_data_def)
next
  case (Some rn)
  obtain roll nonce where rn: "rn = (roll, nonce)" by (cases rn)
  obtain found calls where look: "lookup_student d roll q = (found, calls)"
    by (cases "lookup_student d roll q")
  show ?thesis
  proof (cases found)
    case None
    with Some rn look show ?thesis
      by (simp add: verify_qr_data_def lookup_and_mark_def)
  next
    case (Some st)
    obtain r d' calls' where m: "mark_attendance m ev d st roll = (r, d', calls')"
      by (cases "mark_attendance m ev d st roll")
    with mark_attendance_effect[where m = m and ev = ev and d = d and st = st and roll = roll]
    have "r \<noteq> Inr Suppressed \<and>
     (if is_verified r
      then \<exists>st roll ts. r = Inr (Verified st roll ts) \<and> \<not> attendance_exists d roll \<and>
             d' = insert_attendance d roll ts ''webrtc_live'' ''''
      else d' = d)"
      by (auto split: if_splits simp del: split_paired_Ex)
    with \<open>decode_token L q = Some rn\<close> rn look Some m show ?thesis
      by (auto simp add: verify_qr_data_def lookup_and_mark_def simp del: split_paired_Ex
          split: if_splits)
  qed
qed

lemma recv_qr_data_throttled:
  "throttled t now q \<Longrightarrow> recv_qr_data m L ev t d now q = (Inr Suppressed, t, d, [])"
  by (simp add: recv_qr_data_def)

lemma recv_qr_data_passed:
  "\<not> throttled t now q \<Longrightarrow>
     recv_qr_data m L ev t d now q =
       (fst (verify_qr_data m L ev d q), t\<lparr>last_seen := (last_seen t)(q \<mapsto> now)\<rparr>,
        fst (snd (verify_qr_data m L ev d q)), snd (snd (verify_qr_data m L ev d q)))"
  by (simp add: recv_qr_data_def Let_def split: prod.splits)

lemma recv_qr_data_effect:
  "case recv_qr_data m L ev t d now q of (r, t', d', calls) \<Rightarrow>
     (if is_verified r
      then \<exists>st roll ts. r = Inr (Verified st roll ts) \<and> \<not> attendance_exists d roll \<and>
             d' = insert_attendance d roll ts ''webrtc_live'' ''''
      else d' = d)"
proof (cases "throttled t now q")
  case True
  then show ?thesis by (simp add: recv_qr_data_throttled)
next
  case False
  with verify_qr_data_effect[where m = m and L = L and ev = ev and d = d and q = q] show ?thesis
    by (auto simp add: recv_qr_data_passed simp del: split_paired_Ex split: prod.splits if_splits)
qed

subsection \<open>The worked example, evaluated\<close>

lemma demo_db_tables:
  "students demo_db =
     [\<lparr>roll_no = ''R001'', name = ''Asha'', email = ''asha@example.org'',
       token_b64 = demo_qr, created_at = ''2025-01-01 10:00:00''\<rparr>]"
  "attendance demo_db = []"
proof -
  have s: "py_strip '' R001'' = ''R001''" "py_strip ''Asha '' = ''Asha''"
    "py_strip ''asha@example.org'' = ''asha@example.org''"
    by (simp_all add: py_strip_def py_isspace_def)
  show "students demo_db =
     [\<lparr>roll_no = ''R001'', name = ''Asha'', email = ''asha@example.org'',
       token_b64 = demo_qr, created_at = ''2025-01-01 10:00:00''\<rparr>]"
    by (simp add: demo_db_def issue_all_def issue_row_def demo_row_def init_db_def
        save_student_token_db_def demo_qr_def s Let_def)
  show "attendance demo_db = []"
    by (simp add: demo_db_def issue_all_def issue_row_def demo_row_def init_db_def
        save_student_token_db_def Let_def)
qed

lemma demo_qr_decodes: "decode_token ref_libs demo_qr = Some (''R001'', ''AQIDBAUG'')"
proof -
  have s: "py_strip ''R001'' = ''R001''"
    by (simp add: py_strip_def py_isspace_def)
  have n: "make_nonce [1, 2, 3, 4, 5, 6] = ''AQIDBAUG''"
    by (simp add: make_nonce_def b64_char_def b64_alphabet_def)
  have "CHR ''|'' \<notin> set ''R001'' \<union> set (make_nonce [1, 2, 3, 4, 5, 6])"
    using bar_notin_nonce[of "[1, 2, 3, 4, 5, 6]"] by simp
  then show ?thesis
    using decode_token_encode_token[OF libs_ok_ref_libs, of "''R001''" "make_nonce [1, 2, 3, 4, 5, 6]"]
    by (simp add: demo_qr_def make_token_encode_token s n)
qed

lemma demo_lookup:
  "get_student_by_roll demo_db ''R001'' = Some (''R001'', ''Asha'', ''asha@example.org'')"
  by (simp add: get_student_by_roll_def demo_db_tables student_dict_def)

lemma demo_not_marked: "\<not> attendance_exists demo_db ''R001''"
  by (simp add: attendance_exists_def demo_db_tables)

lemma demo_not_throttled: "\<not> throttled new_transformer now q"
  by (simp add: throttled_def new_transformer_def)

lemma add_attendance_quiet:
  "add_attendance m quiet_env d roll src nt =
     (Inr ''2025-01-01T18:30:00Z'', insert_attendance d roll ''2025-01-01T18:30:00Z'' src nt,
      [InsertAttendance roll])"
  using add_attendance_from_commits[of 0 0 m quiet_env d roll src nt]
  by (simp add: add_attendance_def quiet_env_def)

lemma add_attendance_locked:
  "add_attendance m locked_env d roll src nt =
     (Inl OperationalError, d,
      concat (replicate m [InsertAttendance roll, Sleep]) @ [InsertAttendance roll])"
  using add_attendance_from_exhausted[of 0 m locked_env d roll src nt]
  by (simp add: add_attendance_def locked_env_def)

lemma demo_verify_quiet:
  "verify_qr_data m ref_libs quiet_env demo_db demo_qr =
     (Inr (Verified (''R001'', ''Asha'', ''asha@example.org'') ''R001'' ''2025-01-01T18:30:00Z''),
      insert_attendance demo_db ''R001'' ''2025-01-01T18:30:00Z'' ''webrtc_live'' '''',
      [SelectStudentByRoll ''R001'', SelectAttendance ''R001'', InsertAttendance ''R001''])"
  by (simp add: verify_qr_data_def demo_qr_decodes lookup_and_mark_def lookup_student_def
      demo_lookup mark_attendance_def demo_not_marked add_attendance_quiet)

lemma demo_verify_locked:
  "verify_qr_data m ref_libs locked_env demo_db demo_qr =
     (Inl OperationalError, demo_db,
      [SelectStudentByRoll ''R001'', SelectAttendance ''R001''] @
      concat (replicate m [InsertAttendance ''R001'', Sleep]) @ [InsertAttendance ''R001''])"
  by (simp add: verify_qr_data_def demo_qr_decodes lookup_and_mark_def lookup_student_def
      demo_lookup mark_attendance_def demo_not_marked add_attendance_locked)

section \<open>The engine's claims\<close>

text \<open>
  Claim C9. One handling of one scanned text leaves the students table as it was and
  appends at most one attendance row: exactly one when the outcome is \<open>Verified\<close>
  (the row of the decoded roll number, with source \<open>webrtc_live\<close>), and none in
  every other case, where the whole store is unchanged: \<open>Suppressed\<close>,
  \<open>Invalid\<close>, \<open>Unknown\<close>, \<open>Duplicate\<close>, and the exception of a busy store.
\<close>

theorem recv_appends_iff_verified:
  "case recv_qr_data m L ev t d now q of (r, t', d', calls) \<Rightarrow>
     students d' = students d \<and>
     (if is_verified r
      then \<exists>st roll ts. r = Inr (Verified st roll ts) \<and>
             attendance d' =
               attendance d @
               [\<lparr>att_id = next_id (attendance d), att_roll_no = roll, timestamp_iso = ts,
                 source = ''webrtc_live'', att_note = ''''\<rparr>]
      else d' = d) \<and>
     (length (attendance d') = Suc (length (attendance d)) \<longleftrightarrow> is_verified r) \<and>
     (r = Inr Suppressed \<or> r = Inr Invalid \<or> r = Inr Unknown \<or> (\<exists>roll. r = Inr (Duplicate roll))
        \<longrightarrow> d' = d)"
proof -
  obtain r t' d' calls where res: "recv_qr_data m L ev t d now q = (r, t', d', calls)"
    by (cases "recv_qr_data m L ev t d now q")
  have eff: "if is_verified r
      then \<exists>st roll ts. r = Inr (Verified st roll ts) \<and> \<not> attendance_exists d roll \<and>
             d' = insert_attendance d roll ts ''webrtc_live'' ''''
      else d' = d"
    using recv_qr_data_effect[where m = m and L = L and ev = ev and t = t and d = d
        and now = now and q = q] res
    by simp
  show ?thesis
  proof (cases "is_verified r")
    case True
    with eff obtain st roll ts where v: "r = Inr (Verified st roll ts)"
      "d' = insert_attendance d roll ts ''webrtc_live'' ''''"
      by auto
    have "\<exists>st roll ts. r = Inr (Verified st roll ts) \<and>
             attendance d' =
               attendance d @
               [\<lparr>att_id = next_id (attendance d), att_roll_no = roll, timestamp_iso = ts,
                 source = ''webrtc_live'', att_note = ''''\<rparr>]"
      using v by (intro exI[of _ st] exI[of _ roll] exI[of _ ts])
        (simp add: attendance_insert_attendance)
    moreover have "students d' = students d"
      "length (attendance d') = Suc (length (attendance d))"
      using v by (simp_all add: attendance_insert_attendance)
    ultimately show ?thesis using True v(1) by (simp add: res del: split_paired_Ex)
  next
    case False
    with eff have "d' = d" by simp
    with False show ?thesis by (simp add: res del: split_paired_Ex)
  qed
qed

theorem recv_appends_iff_verified_witness:
  "is_verified (fst (recv_qr_data max_tries_qr2 ref_libs quiet_env new_transformer demo_db 0 demo_qr))
   \<and> map att_roll_no (attendance (fst (snd (snd
        (recv_qr_data max_tries_qr2 ref_libs quiet_env new_transformer demo_db 0 demo_qr))))) =
      [''R001'']
   \<and> \<not> is_verified (fst (recv_qr_data max_tries_qr2 ref_libs locked_env new_transformer demo_db 0 demo_qr))
   \<and> fst (snd (snd (recv_qr_data max_tries_qr2 ref_libs locked_env new_transformer demo_db 0 demo_qr))) =
      demo_db"
proof -
  have quiet: "recv_qr_data max_tries_qr2 ref_libs quiet_env new_transformer demo_db 0 demo_qr =
      (Inr (Verified (''R001'', ''Asha'', ''asha@example.org'') ''R001'' ''2025-01-01T18:30:00Z''),
       new_transformer\<lparr>last_seen := (last_seen new_transformer)(demo_qr \<mapsto> 0)\<rparr>,
       insert_attendance demo_db ''R001'' ''2025-01-01T18:30:00Z'' ''webrtc_live'' '''',
       [SelectStudentByRoll ''R001'', SelectAttendance ''R001'', InsertAttendance ''R001''])"
    by (simp add: recv_qr_data_passed demo_not_throttled demo_verify_quiet)
  have locked: "recv_qr_data max_tries_qr2 ref_libs locked_env new_transformer demo_db 0 demo_qr =
      (Inl OperationalError,
       new_transformer\<lparr>last_seen := (last_seen new_transformer)(demo_qr \<mapsto> 0)\<rparr>,
       demo_db,
       [SelectStudentByRoll ''R001'', SelectAttendance ''R001''] @
       concat (replicate max_tries_qr2 [InsertAttendance ''R001'', Sleep]) @
       [InsertAttendance ''R001''])"
    by (simp add: recv_qr_data_passed demo_not_throttled demo_verify_locked)
  have 1: "map att_roll_no (attendance (fst (snd (snd
        (recv_qr_data max_tries_qr2 ref_libs quiet_env new_transformer demo_db 0 demo_qr))))) =
      [''R001'']"
    using recv_appends_iff_verified[where m = max_tries_qr2 and L = ref_libs and ev = quiet_env
        and t = new_transformer and d = demo_db and now = 0 and q = demo_qr]
    by (simp add: quiet demo_db_tables)
  have 2: "fst (snd (snd (recv_qr_data max_tries_qr2 ref_libs locked_env new_transformer demo_db 0 demo_qr))) =
      demo_db"
    using recv_appends_iff_verified[where m = max_tries_qr2 and L = ref_libs and ev = locked_env
        and t = new_transformer and d = demo_db and now = 0 and q = demo_qr]
    by (simp add: locked)
  from 1 2 show ?thesis by (simp add: quiet locked)
qed

lemma mark_attendance_shape:
  "case mark_attendance m ev d st roll of (r, d', calls) \<Rightarrow>
     (r = Inr (Duplicate roll) \<or> r = Inl OperationalError \<or>
      (\<exists>ts. r = Inr (Verified st roll ts))) \<and>
     take 1 calls = [SelectAttendance roll] \<and>
     set calls \<subseteq> {SelectAttendance roll, InsertAttendance roll, Sleep}"
  by (rule mark_attendance_cases[where d = d and roll = roll and m = m and ev = ev and st = st])
    auto

text \<open>
  Claim C8. For a scanned text that passes the throttle and decodes to \<open>roll\<close>:
  the student is looked up by the roll number first, and a row of the students table
  with that roll number is the student; the lookup by the scanned text is made only
  when no row has that roll number, and then a row whose stored token text is the
  scanned text is the student; a student found either way goes on to the duplicate
  check under the decoded roll number; and the outcome is \<open>Unknown\<close>, with the store
  untouched and no other store call made, exactly when no row has the roll number and
  no row has the scanned text as its token.
\<close>

theorem lookup_by_roll_then_token:
  assumes "\<not> throttled t now q" and "decode_token L q = Some (roll, nonce)"
  shows "case recv_qr_data m L ev t d now q of (r, t', d', calls) \<Rightarrow>
      (case get_student_by_roll d roll of
         Some st \<Rightarrow>
           (case mark_attendance m ev d st roll of
              (r0, d0, c0) \<Rightarrow> r = r0 \<and> d' = d0 \<and> calls = SelectStudentByRoll roll # c0)
       | None \<Rightarrow>
           (case get_student_by_token_b64 d q of
              Some st \<Rightarrow>
                (case mark_attendance m ev d st roll of
                   (r0, d0, c0) \<Rightarrow>
                     r = r0 \<and> d' = d0 \<and>
                     calls = SelectStudentByRoll roll # SelectStudentByToken q # c0)
            | None \<Rightarrow>
                r = Inr Unknown \<and> d' = d \<and>
                calls = [SelectStudentByRoll roll, SelectStudentByToken q]))
      \<and> (r = Inr Unknown \<longleftrightarrow>
           get_student_by_roll d roll = None \<and> get_student_by_token_b64 d q = None)
      \<and> (case find (\<lambda>s. roll_no s = roll) (students d) of
           Some row \<Rightarrow>
             take 2 calls = [SelectStudentByRoll roll, SelectAttendance roll] \<and>
             SelectStudentByToken q \<notin> set calls \<and>
             (r = Inr (Duplicate roll) \<or> r = Inl OperationalError \<or>
              (\<exists>ts. r = Inr (Verified (roll_no row, name row, email row) roll ts)))
         | None \<Rightarrow>
             (case find (\<lambda>s. token_b64 s = q) (students d) of
                Some row \<Rightarrow>
                  take 3 calls =
                    [SelectStudentByRoll roll, SelectStudentByToken q, SelectAttendance roll] \<and>
                  (r = Inr (Duplicate roll) \<or> r = Inl OperationalError \<or>
                   (\<exists>ts. r = Inr (Verified (roll_no row, name row, email row) roll ts)))
              | None \<Rightarrow>
                  r = Inr Unknown \<and> d' = d \<and>
                  calls = [SelectStudentByRoll roll, SelectStudentByToken q]))
      \<and> (r = Inr Unknown \<longleftrightarrow>
           roll \<notin> roll_no ` set (students d) \<and> q \<notin> token_b64 ` set (students d))"
proof -
  obtain r t' d' calls where res: "recv_qr_data m L ev t d now q = (r, t', d', calls)"
    by (cases "recv_qr_data m L ev t d now q")
  have whole: "case recv_qr_data m L ev t d now q of (r, t', d', calls) \<Rightarrow>
      (case get_student_by_roll d roll of
         Some st \<Rightarrow>
           (case mark_attendance m ev d st roll of
              (r0, d0, c0) \<Rightarrow> r = r0 \<and> d' = d0 \<and> calls = SelectStudentByRoll roll # c0)
       | None \<Rightarrow>
           (case get_student_by_token_b64 d q of
              Some st \<Rightarrow>
                (case mark_attendance m ev d st roll of
                   (r0, d0, c0) \<Rightarrow>
                     r = r0 \<and> d' = d0 \<and>
                     calls = SelectStudentByRoll roll # SelectStudentByToken q # c0)
            | None \<Rightarrow>
                r = Inr Unknown \<and> d' = d \<and>
                calls = [SelectStudentByRoll roll, SelectStudentByToken q]))
      \<and> (r = Inr Unknown \<longleftrightarrow>
           get_student_by_roll d roll = None \<and> get_student_by_token_b64 d q = None)"
  proof -
    have not_unknown: "fst (mark_attendance m ev d st roll) \<noteq> Inr Unknown" for st
      using mark_attendance_effect[where m = m and ev = ev and d = d and st = st and roll = roll]
      by (auto split: prod.splits)
    show ?thesis
    proof (cases "get_student_by_roll d roll")
      case (Some st)
      with assms not_unknown[of st] show ?thesis
        by (auto simp add: recv_qr_data_passed verify_qr_data_def lookup_and_mark_def
            lookup_student_def split: prod.splits)
    next
      case None
      show ?thesis
      proof (cases "get_student_by_token_b64 d q")
        case (Some st)
        with assms None not_unknown[of st] show ?thesis
          by (auto simp add: recv_qr_data_passed verify_qr_data_def lookup_and_mark_def
              lookup_student_def split: prod.splits)
      next
        case None
        with assms \<open>get_student_by_roll d roll = None\<close> show ?thesis
          by (simp add: recv_qr_data_passed verify_qr_data_def lookup_and_mark_def
              lookup_student_def)
      qed
    qed
  qed
  have rel: "(case get_student_by_roll d roll of
         Some st \<Rightarrow>
           (case mark_attendance m ev d st roll of
              (r0, d0, c0) \<Rightarrow> r = r0 \<and> d' = d0 \<and> calls = SelectStudentByRoll roll # c0)
       | None \<Rightarrow>
           (case get_student_by_token_b64 d q of
              Some st \<Rightarrow>
                (case mark_attendance m ev d st roll of
                   (r0, d0, c0) \<Rightarrow>
                     r = r0 \<and> d' = d0 \<and>
                     calls = SelectStudentByRoll roll # SelectStudentByToken q # c0)
            | None \<Rightarrow>
                r = Inr Unknown \<and> d' = d \<and>
                calls = [SelectStudentByRoll roll, SelectStudentByToken q]))
      \<and> (r = Inr Unknown \<longleftrightarrow>
           get_student_by_roll d roll = None \<and> get_student_by_token_b64 d q = None)"
    using whole res by simp
  have by_roll: "get_student_by_roll d roll =
      map_option (\<lambda>row. (roll_no row, name row, email row))
        (find (\<lambda>s. roll_no s = roll) (students d))"
    by (simp add: get_student_by_roll_def student_dict_def fun_eq_iff map_option_case
        split: option.splits)
  have by_token: "get_student_by_token_b64 d q =
      map_option (\<lambda>row. (roll_no row, name row, email row))
        (find (\<lambda>s. token_b64 s = q) (students d))"
    by (simp add: get_student_by_token_b64_def student_dict_def fun_eq_iff map_option_case
        split: option.splits)
  have none_roll: "find (\<lambda>s. roll_no s = roll) (students d) = None \<longleftrightarrow>
      roll \<notin> roll_no ` set (students d)"
    by (auto simp: find_None_iff)
  have none_token: "find (\<lambda>s. token_b64 s = q) (students d) = None \<longleftrightarrow>
      q \<notin> token_b64 ` set (students d)"
    by (auto simp: find_None_iff)
  have abs: "case find (\<lambda>s. roll_no s = roll) (students d) of
           Some row \<Rightarrow>
             take 2 calls = [SelectStudentByRoll roll, SelectAttendance roll] \<and>
             SelectStudentByToken q \<notin> set calls \<and>
             (r = Inr (Duplicate roll) \<or> r = Inl OperationalError \<or>
              (\<exists>ts. r = Inr (Verified (roll_no row, name row, email row) roll ts)))
         | None \<Rightarrow>
             (case find (\<lambda>s. token_b64 s = q) (students d) of
                Some row \<Rightarrow>
                  take 3 calls =
                    [SelectStudentByRoll roll, SelectStudentByToken q, SelectAttendance roll] \<and>
                  (r = Inr (Duplicate roll) \<or> r = Inl OperationalError \<or>
                   (\<exists>ts. r = Inr (Verified (roll_no row, name row, email row) roll ts)))
              | None \<Rightarrow>
                  r = Inr Unknown \<and> d' = d \<and>
                  calls = [SelectStudentByRoll roll, SelectStudentByToken q])"
  proof (cases "find (\<lambda>s. roll_no s = roll) (students d)")
    case (Some row)
    let ?st = "(roll_no row, name row, email row)"
    obtain r0 d0 c0 where mk: "mark_attendance m ev d ?st roll = (r0, d0, c0)"
      by (cases "mark_attendance m ev d ?st roll")
    from rel Some mk have eq: "r = r0" "calls = SelectStudentByRoll roll # c0"
      by (simp_all add: by_roll)
    from mark_attendance_shape[where m = m and ev = ev and d = d and st = ?st and roll = roll] mk
    have shape: "r0 = Inr (Duplicate roll) \<or> r0 = Inl OperationalError \<or>
          (\<exists>ts. r0 = Inr (Verified ?st roll ts))"
      "take 1 c0 = [SelectAttendance roll]"
      "set c0 \<subseteq> {SelectAttendance roll, InsertAttendance roll, Sleep}"
      by simp_all
    have "take 2 calls = [SelectStudentByRoll roll, SelectAttendance roll]"
      using shape(2) by (cases c0) (simp_all add: eq)
    moreover have "SelectStudentByToken q \<notin> set calls"
      using shape(3) by (auto simp: eq)
    ultimately show ?thesis using Some shape(1) eq(1) by simp
  next
    case None
    show ?thesis
    proof (cases "find (\<lambda>s. token_b64 s = q) (students d)")
      case (Some row)
      let ?st = "(roll_no row, name row, email row)"
      obtain r0 d0 c0 where mk: "mark_attendance m ev d ?st roll = (r0, d0, c0)"
        by (cases "mark_attendance m ev d ?st roll")
      from rel None Some mk have eq: "r = r0"
        "calls = SelectStudentByRoll roll # SelectStudentByToken q # c0"
        by (simp_all add: by_roll by_token)
      from mark_attendance_shape[where m = m and ev = ev and d = d and st = ?st and roll = roll] mk
      have shape: "r0 = Inr (Duplicate roll) \<or> r0 = Inl OperationalError \<or>
            (\<exists>ts. r0 = Inr (Verified ?st roll ts))"
        "take 1 c0 = [SelectAttendance roll]"
        by simp_all
      have "take 3 calls =
          [SelectStudentByRoll roll, SelectStudentByToken q, SelectAttendance roll]"
        using shape(2) by (cases c0) (simp_all add: eq)
      then show ?thesis using None Some shape(1) eq(1) by simp
    next
      case none2: None
      with rel None show ?thesis by (simp add: by_roll by_token)
    qed
  qed
  have unknown: "r = Inr Unknown \<longleftrightarrow>
      roll \<notin> roll_no ` set (students d) \<and> q \<notin> token_b64 ` set (students d)"
    using rel by (simp add: by_roll by_token flip: none_roll none_token)
  from rel abs unknown show ?thesis by (simp add: res)
qed

theorem lookup_by_roll_then_token_witness:
  "\<not> throttled new_transformer 0 demo_qr
   \<and> decode_token ref_libs demo_qr = Some (''R001'', ''AQIDBAUG'')
   \<and> recv_qr_data max_tries_qr2 ref_libs quiet_env new_transformer demo_db 0 demo_qr =
       (Inr (Verified (''R001'', ''Asha'', ''asha@example.org'') ''R001'' ''2025-01-01T18:30:00Z''),
        new_transformer\<lparr>last_seen := (last_seen new_transformer)(demo_qr \<mapsto> 0)\<rparr>,
        insert_attendance demo_db ''R001'' ''2025-01-01T18:30:00Z'' ''webrtc_live'' '''',
        [SelectStudentByRoll ''R001'', SelectAttendance ''R001'', InsertAttendance ''R001''])
   \<and> recv_qr_data max_tries_qr2 ref_libs quiet_env new_transformer relabelled_db 0 demo_qr =
       (Inr (Verified (''r001'', ''Asha'', ''asha@example.org'') ''R001'' ''2025-01-01T18:30:00Z''),
        new_transformer\<lparr>last_seen := (last_seen new_transformer)(demo_qr \<mapsto> 0)\<rparr>,
        insert_attendance relabelled_db ''R001'' ''2025-01-01T18:30:00Z'' ''webrtc_live'' '''',
        [SelectStudentByRoll ''R001'', SelectStudentByToken demo_qr, SelectAttendance ''R001'',
         InsertAttendance ''R001''])
   \<and> recv_qr_data max_tries_qr2 ref_libs quiet_env new_transformer other_db 0 demo_qr =
       (Inr Unknown,
        new_transformer\<lparr>last_seen := (last_seen new_transformer)(demo_qr \<mapsto> 0)\<rparr>,
        other_db, [SelectStudentByRoll ''R001'', SelectStudentByToken demo_qr])"
proof -
  let ?t1 = "new_transformer\<lparr>last_seen := (last_seen new_transformer)(demo_qr \<mapsto> 0)\<rparr>"
  have t: "fst (snd (recv_qr_data m L ev new_transformer d 0 demo_qr)) = ?t1" for m L ev d
    by (simp add: recv_qr_data_passed demo_not_throttled)
  have other_token: "encode_token ref_libs ''R002'' ''bmV3bm9uY2U='' \<noteq> demo_qr"
  proof
    assume "encode_token ref_libs ''R002'' ''bmV3bm9uY2U='' = demo_qr"
    then have "decode_token ref_libs (encode_token ref_libs ''R002'' ''bmV3bm9uY2U='') =
        Some (''R001'', ''AQIDBAUG'')"
      by (simp add: demo_qr_decodes)
    then show False
      using decode_token_encode_token[OF libs_ok_ref_libs, of "''R002''" "''bmV3bm9uY2U=''"]
      by (simp add: py_strip_def py_isspace_def)
  qed
  have other: "students other_db =
      [\<lparr>roll_no = ''R002'', name = ''Ravi'', email = ''ravi@example.org'',
        token_b64 = encode_token ref_libs ''R002'' ''bmV3bm9uY2U='',
        created_at = ''2025-01-01 10:00:01''\<rparr>]"
    by (simp add: other_db_def save_student_token_db_def init_db_def)
  have relabelled: "students relabelled_db =
      [\<lparr>roll_no = ''r001'', name = ''Asha'', email = ''asha@example.org'',
        token_b64 = demo_qr, created_at = ''2025-01-01 10:00:00''\<rparr>]"
    "attendance relabelled_db = []"
    by (simp_all add: relabelled_db_def save_student_token_db_def init_db_def)
  have mark: "mark_attendance max_tries_qr2 quiet_env d st ''R001'' =
     (Inr (Verified st ''R001'' ''2025-01-01T18:30:00Z''),
      insert_attendance d ''R001'' ''2025-01-01T18:30:00Z'' ''webrtc_live'' '''',
      [SelectAttendance ''R001'', InsertAttendance ''R001''])"
    if "\<not> attendance_exists d ''R001''" for d st
    using that by (simp add: mark_attendance_def add_attendance_quiet)
  have 1: "recv_qr_data max_tries_qr2 ref_libs quiet_env new_transformer demo_db 0 demo_qr =
       (Inr (Verified (''R001'', ''Asha'', ''asha@example.org'') ''R001'' ''2025-01-01T18:30:00Z''),
        ?t1,
        insert_attendance demo_db ''R001'' ''2025-01-01T18:30:00Z'' ''webrtc_live'' '''',
        [SelectStudentByRoll ''R001'', SelectAttendance ''R001'', InsertAttendance ''R001''])"
    using lookup_by_roll_then_token[OF demo_not_throttled demo_qr_decodes,
        where m = max_tries_qr2 and ev = quiet_env and d = demo_db and now = 0]
      t[of max_tries_qr2 ref_libs quiet_env demo_db]
    by (auto simp add: demo_lookup mark[OF demo_not_marked] split: prod.splits)
  have 2: "recv_qr_data max_tries_qr2 ref_libs quiet_env new_transformer relabelled_db 0 demo_qr =
       (Inr (Verified (''r001'', ''Asha'', ''asha@example.org'') ''R001'' ''2025-01-01T18:30:00Z''),
        ?t1,
        insert_attendance relabelled_db ''R001'' ''2025-01-01T18:30:00Z'' ''webrtc_live'' '''',
        [SelectStudentByRoll ''R001'', SelectStudentByToken demo_qr, SelectAttendance ''R001'',
         InsertAttendance ''R001''])"
    using lookup_by_roll_then_token[OF demo_not_throttled demo_qr_decodes,
        where m = max_tries_qr2 and ev = quiet_env and d = relabelled_db and now = 0]
      t[of max_tries_qr2 ref_libs quiet_env relabelled_db]
    by (auto simp add: get_student_by_roll_def get_student_by_token_b64_def relabelled
        student_dict_def mark attendance_exists_def split: prod.splits)
  have 3: "recv_qr_data max_tries_qr2 ref_libs quiet_env new_transformer other_db 0 demo_qr =
       (Inr Unknown, ?t1, other_db, [SelectStudentByRoll ''R001'', SelectStudentByToken demo_qr])"
    using lookup_by_roll_then_token[OF demo_not_throttled demo_qr_decodes,
        where m = max_tries_qr2 and ev = quiet_env and d = other_db and now = 0]
      t[of max_tries_qr2 ref_libs quiet_env other_db]
    by (auto simp add: get_student_by_roll_def get_student_by_token_b64_def other other_token
        split: prod.splits)
  from 1 2 3 demo_not_throttled demo_qr_decodes show ?thesis by blast
qed

text \<open>
  Claim C4. A text is throttled exactly when the instance has a last-seen time for it
  less than three seconds before now. A throttled text ends at the throttle: the outcome
  is \<open>Suppressed\<close>, whatever the libraries and the store are, no store call is made
  and neither the instance nor the store changes. A text that is not throttled has the
  time recorded as its last-seen time and goes on to decoding, lookup and marking; the
  same text seen again less than three seconds later is throttled.
\<close>

theorem throttle_window:
  "(throttled t now q \<longleftrightarrow> (\<exists>seen. last_seen t q = Some seen \<and> now - seen < 3))
   \<and> (throttled t now q \<longrightarrow> recv_qr_data m L ev t d now q = (Inr Suppressed, t, d, []))
   \<and> (\<not> throttled t now q \<longrightarrow>
        (case recv_qr_data m L ev t d now q of (r, t', d', calls) \<Rightarrow>
           last_seen t' = (last_seen t)(q \<mapsto> now) \<and> r \<noteq> Inr Suppressed \<and>
           (r, d', calls) = verify_qr_data m L ev d q \<and>
           (\<forall>now2 L2 ev2 d2. now2 - now < 3 \<longrightarrow>
              recv_qr_data m L2 ev2 t' d2 now2 q = (Inr Suppressed, t', d2, []))))"
proof (intro conjI impI)
  show "throttled t now q \<longleftrightarrow> (\<exists>seen. last_seen t q = Some seen \<and> now - seen < 3)"
    by (auto simp: throttled_def split: option.splits)
next
  assume "throttled t now q"
  then show "recv_qr_data m L ev t d now q = (Inr Suppressed, t, d, [])"
    by (rule recv_qr_data_throttled)
next
  assume pass: "\<not> throttled t now q"
  define t' where "t' = t\<lparr>last_seen := (last_seen t)(q \<mapsto> now)\<rparr>"
  have again: "recv_qr_data m L2 ev2 t' d2 now2 q = (Inr Suppressed, t', d2, [])"
    if "now2 - now < 3" for now2 L2 ev2 d2
  proof -
    from that have "throttled t' now2 q" by (simp add: throttled_def t'_def)
    then show ?thesis by (rule recv_qr_data_throttled)
  qed
  have "fst (verify_qr_data m L ev d q) \<noteq> Inr Suppressed"
    using verify_qr_data_effect[where m = m and L = L and ev = ev and d = d and q = q]
    by (auto split: prod.splits)
  with pass again show "case recv_qr_data m L ev t d now q of (r, t', d', calls) \<Rightarrow>
           last_seen t' = (last_seen t)(q \<mapsto> now) \<and> r \<noteq> Inr Suppressed \<and>
           (r, d', calls) = verify_qr_data m L ev d q \<and>
           (\<forall>now2 L2 ev2 d2. now2 - now < 3 \<longrightarrow>
              recv_qr_data m L2 ev2 t' d2 now2 q = (Inr Suppressed, t', d2, []))"
    by (simp add: recv_qr_data_passed t'_def)
qed

theorem throttle_window_witness:
  "\<not> throttled new_transformer 10 demo_qr
   \<and> throttled (new_transformer\<lparr>last_seen := (last_seen new_transformer)(demo_qr \<mapsto> 10)\<rparr>) 12 demo_qr
   \<and> recv_qr_data max_tries_qr2 ref_libs quiet_env
        (fst (snd (recv_qr_data max_tries_qr2 ref_libs quiet_env new_transformer demo_db 10 demo_qr)))
        (fst (snd (snd (recv_qr_data max_tries_qr2 ref_libs quiet_env new_transformer demo_db 10 demo_qr))))
        12 demo_qr =
      (Inr Suppressed,
       new_transformer\<lparr>last_seen := (last_seen new_transformer)(demo_qr \<mapsto> 10)\<rparr>,
       insert_attendance demo_db ''R001'' ''2025-01-01T18:30:00Z'' ''webrtc_live'' '''', [])
   \<and> \<not> throttled (new_transformer\<lparr>last_seen := (last_seen new_transformer)(demo_qr \<mapsto> 10)\<rparr>) 13 demo_qr"
proof -
  have first: "recv_qr_data max_tries_qr2 ref_libs quiet_env new_transformer demo_db 10 demo_qr =
      (Inr (Verified (''R001'', ''Asha'', ''asha@example.org'') ''R001'' ''2025-01-01T18:30:00Z''),
       new_transformer\<lparr>last_seen := (last_seen new_transformer)(demo_qr \<mapsto> 10)\<rparr>,
       insert_attendance demo_db ''R001'' ''2025-01-01T18:30:00Z'' ''webrtc_live'' '''',
       [SelectStudentByRoll ''R001'', SelectAttendance ''R001'', InsertAttendance ''R001''])"
    by (simp add: recv_qr_data_passed demo_not_throttled demo_verify_quiet)
  have th: "throttled (new_transformer\<lparr>last_seen := (last_seen new_transformer)(demo_qr \<mapsto> 10)\<rparr>) 12 demo_qr"
    "\<not> throttled (new_transformer\<lparr>last_seen := (last_seen new_transformer)(demo_qr \<mapsto> 10)\<rparr>) 13 demo_qr"
    by (simp_all add: throttled_def)
  show ?thesis
    using throttle_window[where t = "new_transformer\<lparr>last_seen := (last_seen new_transformer)(demo_qr \<mapsto> 10)\<rparr>"
        and now = 12 and q = demo_qr and m = max_tries_qr2 and L = ref_libs and ev = quiet_env
        and d = "insert_attendance demo_db ''R001'' ''2025-01-01T18:30:00Z'' ''webrtc_live'' ''''"]
      th demo_not_throttled[of 10 demo_qr]
    by (simp add: first)
qed

text \<open>
  Claim C3, as the code has it. \<open>add_attendance\<close> tries the insert at most
  \<open>max_tries + 1\<close> times (nine in \<open>verify_qr2.py\<close>, six in
  \<open>verify_qr_app.py\<close>), with one sleep of 0.1 seconds between two attempts. It
  returns at the first attempt that is not busy: that attempt's time is the result,
  exactly one row with it is appended to the log, and the attempts made are the busy
  ones before it, each followed by a sleep, and the one that committed. When every
  attempt is busy it re-raises the \<open>sqlite3.OperationalError\<close> with nothing
  recorded, after \<open>max_tries\<close> sleeps, and \<open>recv\<close> does not catch it: the
  exception leaves \<open>recv\<close>, no outcome is shown for the scan and the rest of the frame
  is not looked at.
\<close>

theorem add_attendance_bounded_retries:
  "(\<exists>j\<le>m. snd (snd (add_attendance m ev d roll src nt)) =
             concat (replicate j [InsertAttendance roll, Sleep]) @ [InsertAttendance roll])
   \<and> ((\<exists>i\<le>m. \<not> busy ev i) \<longrightarrow> (\<exists>ts. fst (add_attendance m ev d roll src nt) = Inr ts))
   \<and> (\<forall>j. j \<le> m \<and> (\<forall>i<j. busy ev i) \<and> \<not> busy ev j \<longrightarrow>
        (case add_attendance m ev d roll src nt of
           (r, d', calls) \<Rightarrow>
             r = Inr (utcnow ev j @ ''Z'') \<and>
             students d' = students d \<and>
             attendance d' =
               attendance d @
               [\<lparr>att_id = Suc (foldr max (map att_id (attendance d)) 0), att_roll_no = roll,
                 timestamp_iso = utcnow ev j @ ''Z'', source = src, att_note = nt\<rparr>] \<and>
             calls =
               concat (replicate j [InsertAttendance roll, Sleep]) @ [InsertAttendance roll]))
   \<and> ((\<forall>i\<le>m. busy ev i) \<longrightarrow>
        add_attendance m ev d roll src nt =
          (Inl OperationalError, d,
           concat (replicate m [InsertAttendance roll, Sleep]) @ [InsertAttendance roll]))
   \<and> ((\<forall>i\<le>m. busy ev i) \<and> utf8_decode L dat = Some q \<and> \<not> throttled t now q \<and>
        decode_token L q = Some (roll, nonce) \<and> fst (lookup_student d roll q) \<noteq> None \<and>
        \<not> attendance_exists d roll \<longrightarrow>
        recv m L t d ((dat, now, ev) # rest) =
          ((Some OperationalError, []), t\<lparr>last_seen := (last_seen t)(q \<mapsto> now)\<rparr>, d))"
proof (intro conjI impI allI)
  show "\<exists>j\<le>m. snd (snd (add_attendance m ev d roll src nt)) =
             concat (replicate j [InsertAttendance roll, Sleep]) @ [InsertAttendance roll]"
    by (rule add_attendance_cases[where m = m and ev = ev and d = d and roll = roll
          and src = src and nt = nt]) auto
next
  assume "\<exists>i\<le>m. \<not> busy ev i"
  then show "\<exists>ts. fst (add_attendance m ev d roll src nt) = Inr ts"
    by (rule_tac add_attendance_cases[where m = m and ev = ev and d = d and roll = roll
          and src = src and nt = nt]) auto
next
  fix j
  assume j: "j \<le> m \<and> (\<forall>i<j. busy ev i) \<and> \<not> busy ev j"
  have from_k: "add_attendance_from m ev d roll src nt k =
           (Inr (utcnow ev j @ ''Z''),
            d\<lparr>attendance :=
                attendance d @
                [\<lparr>att_id = Suc (foldr max (map att_id (attendance d)) 0), att_roll_no = roll,
                  timestamp_iso = utcnow ev j @ ''Z'', source = src, att_note = nt\<rparr>]\<rparr>,
            concat (replicate (j - k) [InsertAttendance roll, Sleep]) @ [InsertAttendance roll])"
    if "k \<le> j" for k
    using that
  proof (induction "j - k" arbitrary: k)
    case 0
    then have "k = j" by simp
    with j show ?case
      by (subst add_attendance_from.simps)
        (simp add: Let_def insert_attendance_def next_id_def)
  next
    case (Suc n)
    then have lt: "k < j" and n: "n = j - Suc k" by simp_all
    with j have busy: "busy ev k" and le: "\<not> Suc k > m" by simp_all
    have step: "j - k = Suc (j - Suc k)" using lt by simp
    show ?case
      using Suc.hyps(1)[OF n] lt busy le
      by (subst add_attendance_from.simps) (simp add: step)
  qed
  have "add_attendance m ev d roll src nt =
           (Inr (utcnow ev j @ ''Z''),
            d\<lparr>attendance :=
                attendance d @
                [\<lparr>att_id = Suc (foldr max (map att_id (attendance d)) 0), att_roll_no = roll,
                  timestamp_iso = utcnow ev j @ ''Z'', source = src, att_note = nt\<rparr>]\<rparr>,
            concat (replicate j [InsertAttendance roll, Sleep]) @ [InsertAttendance roll])"
    using from_k[of 0] by (simp add: add_attendance_def)
  then show "case add_attendance m ev d roll src nt of
           (r, d', calls) \<Rightarrow>
             r = Inr (utcnow ev j @ ''Z'') \<and>
             students d' = students d \<and>
             attendance d' =
               attendance d @
               [\<lparr>att_id = Suc (foldr max (map att_id (attendance d)) 0), att_roll_no = roll,
                 timestamp_iso = utcnow ev j @ ''Z'', source = src, att_note = nt\<rparr>] \<and>
             calls =
               concat (replicate j [InsertAttendance roll, Sleep]) @ [InsertAttendance roll]"
    by simp
next
  assume "\<forall>i\<le>m. busy ev i"
  then show "add_attendance m ev d roll src nt =
          (Inl OperationalError, d,
           concat (replicate m [InsertAttendance roll, Sleep]) @ [InsertAttendance roll])"
    using add_attendance_from_exhausted[of 0 m ev d roll src nt]
    by (simp add: add_attendance_def)
next
  assume a: "(\<forall>i\<le>m. busy ev i) \<and> utf8_decode L dat = Some q \<and> \<not> throttled t now q \<and>
        decode_token L q = Some (roll, nonce) \<and> fst (lookup_student d roll q) \<noteq> None \<and>
        \<not> attendance_exists d roll"
  then obtain st calls where look: "lookup_student d roll q = (Some st, calls)"
    by (cases "lookup_student d roll q") auto
  from a have "add_attendance m ev d roll ''webrtc_live'' '''' =
          (Inl OperationalError, d,
           concat (replicate m [InsertAttendance roll, Sleep]) @ [InsertAttendance roll])"
    using add_attendance_from_exhausted[of 0 m ev d roll "''webrtc_live''" "''''"]
    by (simp add: add_attendance_def)
  with a look have "verify_qr_data m L ev d q =
      (Inl OperationalError, d,
       calls @ SelectAttendance roll #
       concat (replicate m [InsertAttendance roll, Sleep]) @ [InsertAttendance roll])"
    by (simp add: verify_qr_data_def lookup_and_mark_def mark_attendance_def)
  with a show "recv m L t d ((dat, now, ev) # rest) =
          ((Some OperationalError, []), t\<lparr>last_seen := (last_seen t)(q \<mapsto> now)\<rparr>, d)"
    by (simp add: recv_qr_data_passed)
qed

theorem add_attendance_bounded_retries_witness:
  "busy flaky_env 0 \<and> busy flaky_env 1 \<and> \<not> busy flaky_env 2
   \<and> add_attendance max_tries_qr2 flaky_env demo_db ''R001'' ''webrtc_live'' '''' =
       (Inr ''2025-01-01T18:30:01Z'',
        \<lparr>students = students demo_db,
          attendance =
            [\<lparr>att_id = 1, att_roll_no = ''R001'', timestamp_iso = ''2025-01-01T18:30:01Z'',
              source = ''webrtc_live'', att_note = ''''\<rparr>]\<rparr>,
        [InsertAttendance ''R001'', Sleep, InsertAttendance ''R001'', Sleep,
         InsertAttendance ''R001''])
   \<and> busy locked_env max_tries_qr2
   \<and> add_attendance max_tries_qr2 locked_env demo_db ''R001'' ''webrtc_live'' '''' =
       (Inl OperationalError, demo_db,
        concat (replicate 8 [InsertAttendance ''R001'', Sleep]) @ [InsertAttendance ''R001''])
   \<and> add_attendance max_tries_app locked_env demo_db ''R001'' ''webrtc_live'' '''' =
       (Inl OperationalError, demo_db,
        concat (replicate 5 [InsertAttendance ''R001'', Sleep]) @ [InsertAttendance ''R001''])"
proof -
  have b: "\<forall>i\<le>m. busy locked_env i" for m by (simp add: locked_env_def)
  have f: "(2::nat) \<le> max_tries_qr2 \<and> (\<forall>i<2. busy flaky_env i) \<and> \<not> busy flaky_env 2"
    by (simp add: flaky_env_def max_tries_qr2_def)
  have two: "replicate 2 x = [x, x]" for x :: "call list"
    by (simp add: numeral_2_eq_2)
  obtain r d' calls where
    res: "add_attendance max_tries_qr2 flaky_env demo_db ''R001'' ''webrtc_live'' '''' = (r, d', calls)"
    by (cases "add_attendance max_tries_qr2 flaky_env demo_db ''R001'' ''webrtc_live'' ''''")
  have third: "case add_attendance max_tries_qr2 flaky_env demo_db ''R001'' ''webrtc_live'' '''' of
           (r, d', calls) \<Rightarrow>
             r = Inr (utcnow flaky_env 2 @ ''Z'') \<and>
             students d' = students demo_db \<and>
             attendance d' =
               attendance demo_db @
               [\<lparr>att_id = Suc (foldr max (map att_id (attendance demo_db)) 0),
                 att_roll_no = ''R001'', timestamp_iso = utcnow flaky_env 2 @ ''Z'',
                 source = ''webrtc_live'', att_note = ''''\<rparr>] \<and>
             calls =
               concat (replicate 2 [InsertAttendance ''R001'', Sleep]) @ [InsertAttendance ''R001'']"
    using add_attendance_bounded_retries[where m = max_tries_qr2 and ev = flaky_env
        and d = demo_db and roll = "''R001''" and src = "''webrtc_live''" and nt = "''''",
        THEN conjunct2, THEN conjunct2, THEN conjunct1, THEN spec, THEN mp, OF f] .
  have fields: "r = Inr ''2025-01-01T18:30:01Z''" "students d' = students demo_db"
    "attendance d' =
       [\<lparr>att_id = 1, att_roll_no = ''R001'', timestamp_iso = ''2025-01-01T18:30:01Z'',
         source = ''webrtc_live'', att_note = ''''\<rparr>]"
    "calls = [InsertAttendance ''R001'', Sleep, InsertAttendance ''R001'', Sleep,
         InsertAttendance ''R001'']"
    using third unfolding res by (simp_all add: flaky_env_def demo_db_tables two)
  have "d' = \<lparr>students = students demo_db,
          attendance =
            [\<lparr>att_id = 1, att_roll_no = ''R001'', timestamp_iso = ''2025-01-01T18:30:01Z'',
              source = ''webrtc_live'', att_note = ''''\<rparr>]\<rparr>"
    using fields(2,3) by (cases d') simp
  with fields(1,4) have flaky:
    "add_attendance max_tries_qr2 flaky_env demo_db ''R001'' ''webrtc_live'' '''' =
       (Inr ''2025-01-01T18:30:01Z'',
        \<lparr>students = students demo_db,
          attendance =
            [\<lparr>att_id = 1, att_roll_no = ''R001'', timestamp_iso = ''2025-01-01T18:30:01Z'',
              source = ''webrtc_live'', att_note = ''''\<rparr>]\<rparr>,
        [InsertAttendance ''R001'', Sleep, InsertAttendance ''R001'', Sleep,
         InsertAttendance ''R001''])"
    by (simp add: res)
  have locked: "add_attendance max_tries_qr2 locked_env demo_db ''R001'' ''webrtc_live'' '''' =
       (Inl OperationalError, demo_db,
        concat (replicate 8 [InsertAttendance ''R001'', Sleep]) @ [InsertAttendance ''R001''])
   \<and> add_attendance max_tries_app locked_env demo_db ''R001'' ''webrtc_live'' '''' =
       (Inl OperationalError, demo_db,
        concat (replicate 5 [InsertAttendance ''R001'', Sleep]) @ [InsertAttendance ''R001''])"
    using add_attendance_bounded_retries[where m = max_tries_qr2 and ev = locked_env
        and d = demo_db and roll = "''R001''" and src = "''webrtc_live''" and nt = "''''"]
      add_attendance_bounded_retries[where m = max_tries_app and ev = locked_env
        and d = demo_db and roll = "''R001''" and src = "''webrtc_live''" and nt = "''''"]
      b[of max_tries_qr2] b[of max_tries_app]
    by (simp add: max_tries_qr2_def max_tries_app_def)
  from flaky locked show ?thesis
    by (simp add: flaky_env_def locked_env_def)
qed

text \<open>
  The claim as the specification words it fails: with a store that is busy at every
  attempt, \<open>recv\<close> of either verifier ends with the \<open>OperationalError\<close> raised out
  of it, and no outcome.
\<close>

theorem store_error_counterexample:
  "recv max_tries_qr2 ref_libs new_transformer demo_db [(utf8_encode_ref demo_qr, 0, locked_env)] =
     ((Some OperationalError, []),
      new_transformer\<lparr>last_seen := (last_seen new_transformer)(demo_qr \<mapsto> 0)\<rparr>, demo_db)
   \<and> recv max_tries_app ref_libs new_transformer demo_db [(utf8_encode_ref demo_qr, 0, locked_env)] =
     ((Some OperationalError, []),
      new_transformer\<lparr>last_seen := (last_seen new_transformer)(demo_qr \<mapsto> 0)\<rparr>, demo_db)"
proof -
  have u: "utf8_decode ref_libs (utf8_encode_ref demo_qr) = Some demo_qr"
    by (simp add: ref_libs_def utf8_ref_roundtrip)
  show ?thesis
    by (simp add: u recv_qr_data_passed demo_not_throttled demo_verify_locked)
qed

section \<open>The throttle's table\<close>

lemma dom_last_seen_recv_qr_data:
  "dom (last_seen (fst (snd (recv_qr_data m L ev t d now q)))) = insert q (dom (last_seen t))"
proof (cases "throttled t now q")
  case True
  then have "q \<in> dom (last_seen t)"
    by (auto simp: throttled_def split: option.splits)
  with True show ?thesis by (auto simp: recv_qr_data_throttled)
next
  case False
  then show ?thesis by (simp add: recv_qr_data_passed)
qed

lemma dom_last_seen_recv_all:
  "dom (last_seen (fst (recv_all m L t d scans))) = dom (last_seen t) \<union> fst ` set scans"
proof (induction scans arbitrary: t d)
  case Nil
  then show ?case by simp
next
  case (Cons s scans)
  obtain q now ev where s: "s = (q, now, ev)" by (cases s)
  obtain r t' d' calls where step: "recv_qr_data m L ev t d now q = (r, t', d', calls)"
    by (cases "recv_qr_data m L ev t d now q")
  have "dom (last_seen t') = insert q (dom (last_seen t))"
    using dom_last_seen_recv_qr_data[of m L ev t d now q] step by simp
  with Cons.IH[of t' d'] s step show ?case by auto
qed

text \<open>
  Claim C5, as the code has it. \<open>self.last_seen\<close> is a plain dictionary that nothing
  ever removes an entry from: after any scans its keys are the keys it had before and
  every text scanned since, so it has at most one entry more per scan, and no fewer than
  the number of different texts scanned.
\<close>

theorem last_seen_keeps_every_text:
  "dom (last_seen (fst (recv_all m L t d scans))) = dom (last_seen t) \<union> fst ` set scans
   \<and> (finite (dom (last_seen t)) \<longrightarrow>
        card (dom (last_seen (fst (recv_all m L t d scans)))) \<le>
          card (dom (last_seen t)) + length scans
        \<and> card (fst ` set scans) \<le> card (dom (last_seen (fst (recv_all m L t d scans)))))"
proof (intro conjI impI)
  show eq: "dom (last_seen (fst (recv_all m L t d scans))) = dom (last_seen t) \<union> fst ` set scans"
    by (rule dom_last_seen_recv_all)
  assume fin: "finite (dom (last_seen t))"
  have "card (dom (last_seen t) \<union> fst ` set scans) \<le> card (dom (last_seen t)) + card (fst ` set scans)"
    by (rule card_Un_le)
  also have "card (fst ` set scans) \<le> length scans"
    by (metis card_image_le card_length le_trans List.finite_set)
  finally show "card (dom (last_seen (fst (recv_all m L t d scans)))) \<le>
          card (dom (last_seen t)) + length scans"
    by (simp add: eq)
  show "card (fst ` set scans) \<le> card (dom (last_seen (fst (recv_all m L t d scans))))"
    unfolding eq using fin by (intro card_mono) auto
qed

theorem last_seen_keeps_every_text_witness:
  "finite (dom (last_seen new_transformer))
   \<and> dom (last_seen (fst (recv_all max_tries_qr2 ref_libs new_transformer demo_db
        [(''a'', 0, quiet_env), (''b'', 1, quiet_env), (''a'', 2, quiet_env)]))) = {''a'', ''b''}"
proof -
  have fin: "finite (dom (last_seen new_transformer))" by (simp add: new_transformer_def)
  show ?thesis
    using last_seen_keeps_every_text[where m = max_tries_qr2 and L = ref_libs
        and t = new_transformer and d = demo_db
        and scans = "[(''a'', 0, quiet_env), (''b'', 1, quiet_env), (''a'', 2, quiet_env)]"] fin
    by (auto simp: new_transformer_def)
qed

text \<open>
  The claim as the specification words it fails: no bound holds. Scanning the texts
  \<open>a\<close>, \<open>aa\<close>, \<open>aaa\<close>, ... one after the other leaves one entry for each.
\<close>

theorem last_seen_bound_counterexample:
  "\<not> (\<exists>B. \<forall>scans.
        card (dom (last_seen (fst (recv_all max_tries_qr2 ref_libs new_transformer demo_db scans))))
          \<le> B)"
proof
  assume "\<exists>B. \<forall>scans.
        card (dom (last_seen (fst (recv_all max_tries_qr2 ref_libs new_transformer demo_db scans))))
          \<le> B"
  then obtain B where B: "\<And>scans.
        card (dom (last_seen (fst (recv_all max_tries_qr2 ref_libs new_transformer demo_db scans))))
          \<le> B"
    by blast
  define scans :: "scan list"
    where "scans = map (\<lambda>k. (replicate k (CHR ''a''), 0, quiet_env)) [0..<Suc B]"
  have "fst ` set scans = (\<lambda>k. replicate k (CHR ''a'')) ` {0..<Suc B}"
    by (auto simp: scans_def image_iff)
  moreover have "inj_on (\<lambda>k. replicate k (CHR ''a'')) {0..<Suc B}"
    by (rule inj_onI) (metis length_replicate)
  ultimately have "card (fst ` set scans) = Suc B"
    by (simp add: card_image)
  moreover have "dom (last_seen (fst (recv_all max_tries_qr2 ref_libs new_transformer demo_db scans)))
      = fst ` set scans"
    by (simp add: dom_last_seen_recv_all new_transformer_def)
  ultimately show False using B[of scans] by simp
qed

section \<open>What the operations keep\<close>

lemma add_attendance_db:
  "fst (snd (add_attendance m ev d roll src nt)) = d \<or>
   (\<exists>ts. fst (snd (add_attendance m ev d roll src nt)) = insert_attendance d roll ts src nt)"
  by (rule add_attendance_cases[where m = m and ev = ev and d = d and roll = roll
        and src = src and nt = nt]) auto

lemma recv_qr_data_db:
  "fst (snd (snd (recv_qr_data m L ev t d now q))) = d \<or>
   (\<exists>roll ts. fst (snd (snd (recv_qr_data m L ev t d now q))) =
       insert_attendance d roll ts ''webrtc_live'' '''')"
  using recv_qr_data_effect[where m = m and L = L and ev = ev and t = t and d = d
      and now = now and q = q]
  by (auto split: prod.splits if_splits)

lemma thread_step_db:
  "fst (thread_step m L d th) = d \<or>
   (\<exists>roll ts. fst (thread_step m L d th) = insert_attendance d roll ts ''webrtc_live'' '''')"
proof (cases "th_pc th")
  case (AtAdd st roll)
  obtain r d' calls where a:
    "add_attendance m (th_env th) d roll ''webrtc_live'' '''' = (r, d', calls)"
    by (cases "add_attendance m (th_env th) d roll ''webrtc_live'' ''''")
  with AtAdd have "fst (thread_step m L d th) = d'"
    by (simp add: thread_step_def split: sum.splits)
  moreover have "d' = d \<or> (\<exists>ts. d' = insert_attendance d roll ts ''webrtc_live'' '''')"
    using add_attendance_db[of m "th_env th" d roll "''webrtc_live''" "''''"] a by simp
  ultimately show ?thesis by blast
qed (auto simp: thread_step_def split: option.splits)

text \<open>Every operation but the upsert leaves the students alone and only ever appends
  to the attendance log; the upsert leaves the log alone.\<close>

lemma apply_op_students:
  "(\<exists>roll nm mail tok created. x = OpSaveStudent roll nm mail tok created) \<or>
   students (apply_op m d x) = students d"
proof (cases x)
  case (OpAddAttendance ev roll src nt)
  with add_attendance_db[of m ev d roll src nt] show ?thesis by auto
next
  case (OpRecv L ev t now q)
  with recv_qr_data_db[of m L ev t d now q] show ?thesis by auto
next
  case (OpThreadStep L th)
  with thread_step_db[of m L d th] show ?thesis by auto
qed (simp_all add: init_db_def)

lemma apply_op_attendance: "prefix (attendance d) (attendance (apply_op m d x))"
proof (cases x)
  case (OpAddAttendance ev roll src nt)
  with add_attendance_db[of m ev d roll src nt] show ?thesis
    by (auto simp: attendance_insert_attendance)
next
  case (OpRecv L ev t now q)
  with recv_qr_data_db[of m L ev t d now q] show ?thesis
    by (auto simp: attendance_insert_attendance)
next
  case (OpThreadStep L th)
  with thread_step_db[of m L d th] show ?thesis
    by (auto simp: attendance_insert_attendance)
qed (simp_all add: init_db_def save_student_token_db_def)

lemma foldl_apply_op_attendance:
  "prefix (attendance d) (attendance (foldl (apply_op m) d ops))"
proof (induction ops arbitrary: d)
  case Nil
  then show ?case by simp
next
  case (Cons x ops)
  have "prefix (attendance d) (attendance (apply_op m d x))"
    by (rule apply_op_attendance)
  also have "prefix \<dots> (attendance (foldl (apply_op m) (apply_op m d x) ops))"
    by (rule Cons.IH)
  finally show ?case by simp
qed

subsection \<open>The primary key of the students\<close>

lemma distinct_upsert:
  assumes "distinct (map roll_no rows)"
  shows "distinct (map roll_no (filter (\<lambda>r. roll_no r \<noteq> roll) rows @
           [\<lparr>roll_no = roll, name = nm, email = mail, token_b64 = tok, created_at = created\<rparr>]))"
  using assms by (auto simp: distinct_map_filter)

lemma save_student_token_db_distinct:
  "distinct (map roll_no (students d)) \<Longrightarrow>
     distinct (map roll_no (students (save_student_token_db d roll nm mail tok created)))"
  using distinct_upsert[of "students d" roll nm mail tok created]
  by (simp add: save_student_token_db_def)

lemma apply_op_distinct:
  assumes "distinct (map roll_no (students d))"
  shows "distinct (map roll_no (students (apply_op m d x)))"
  using apply_op_students[of x m d] assms
  by (auto simp: save_student_token_db_distinct)

lemma foldl_apply_op_distinct:
  "distinct (map roll_no (students d)) \<Longrightarrow>
     distinct (map roll_no (students (foldl (apply_op m) d ops)))"
  by (induction ops arbitrary: d) (simp_all add: apply_op_distinct)

lemma issue_all_distinct:
  "distinct (map roll_no (students d)) \<Longrightarrow> distinct (map roll_no (students (issue_all L d rows)))"
  unfolding issue_all_def
  by (induction rows arbitrary: d) (simp_all add: issue_row_def Let_def save_student_token_db_distinct)

lemma distinct_key_count:
  "distinct (map f xs) \<Longrightarrow> length (filter (\<lambda>x. f x = a) xs) \<le> 1"
  by (induction xs) (auto simp: filter_empty_conv image_iff)

lemma distinct_key_removed:
  "distinct (map f xs) \<Longrightarrow> a \<in> f ` set xs \<Longrightarrow>
     Suc (length (filter (\<lambda>x. f x \<noteq> a) xs)) = length xs"
proof (induction xs)
  case Nil
  then show ?case by simp
next
  case (Cons x xs)
  show ?case
  proof (cases "f x = a")
    case True
    with Cons.prems have "a \<notin> f ` set xs" by auto
    then have "filter (\<lambda>x. f x \<noteq> a) xs = xs" by (auto simp: filter_id_conv)
    with True show ?thesis by simp
  next
    case False
    with Cons show ?thesis by auto
  qed
qed

text \<open>
  Claim C6. The students table keeps its primary key: when no two rows have the same
  roll number before, none have after any run of \<open>main\<close>'s loop, nor after any
  sequence of operations of the three programs, so every roll number has at most one
  row. After \<open>save_student_token_db\<close> the roll number has exactly one row, the new
  one; when it had a row before, the table is as long as it was (the row was replaced,
  not added to).
\<close>

theorem one_credential_per_participant:
  assumes "distinct (map roll_no (students d))"
  shows "distinct (map roll_no (students (issue_all L d rows)))
       \<and> length (filter (\<lambda>s. roll_no s = roll) (students (issue_all L d rows))) \<le> 1
       \<and> distinct (map roll_no (students (foldl (apply_op m) d ops)))
       \<and> length (filter (\<lambda>s. roll_no s = roll) (students (foldl (apply_op m) d ops))) \<le> 1
       \<and> filter (\<lambda>s. roll_no s = roll)
            (students (save_student_token_db d roll nm mail tok created)) =
           [\<lparr>roll_no = roll, name = nm, email = mail, token_b64 = tok, created_at = created\<rparr>]
       \<and> (roll \<in> roll_no ` set (students d) \<longrightarrow>
            length (students (save_student_token_db d roll nm mail tok created)) =
              length (students d))"
proof -
  have 1: "distinct (map roll_no (students (issue_all L d rows)))"
    using assms by (rule issue_all_distinct)
  have 2: "distinct (map roll_no (students (foldl (apply_op m) d ops)))"
    using assms by (rule foldl_apply_op_distinct)
  have 3: "filter (\<lambda>s. roll_no s = roll)
            (students (save_student_token_db d roll nm mail tok created)) =
           [\<lparr>roll_no = roll, name = nm, email = mail, token_b64 = tok, created_at = created\<rparr>]"
    by (simp add: save_student_token_db_def filter_empty_conv)
  have 4: "length (students (save_student_token_db d roll nm mail tok created)) =
              length (students d)" if "roll \<in> roll_no ` set (students d)"
    using distinct_key_removed[OF assms that] by (simp add: save_student_token_db_def)
  from 1 2 3 4 distinct_key_count[OF 1, of roll] distinct_key_count[OF 2, of roll]
  show ?thesis by blast
qed

theorem one_credential_per_participant_witness:
  "distinct (map roll_no (students demo_db))
   \<and> map roll_no (students (save_student_token_db demo_db ''R001'' ''Asha'' ''asha@example.org''
        (encode_token ref_libs ''R001'' ''bmV3bm9uY2U='') ''2025-01-02 09:00:00'')) = [''R001'']
   \<and> map token_b64 (students (save_student_token_db demo_db ''R001'' ''Asha'' ''asha@example.org''
        (encode_token ref_libs ''R001'' ''bmV3bm9uY2U='') ''2025-01-02 09:00:00'')) =
        [encode_token ref_libs ''R001'' ''bmV3bm9uY2U='']"
proof -
  have pk: "distinct (map roll_no (students demo_db))" by (simp add: demo_db_tables)
  show ?thesis
    using one_credential_per_participant[OF pk, where roll = "''R001''" and nm = "''Asha''"
        and mail = "''asha@example.org''" and tok = "encode_token ref_libs ''R001'' ''bmV3bm9uY2U=''"
        and created = "''2025-01-02 09:00:00''"] pk
    by (simp add: save_student_token_db_def demo_db_tables)
qed

text \<open>
  Claim C7. No operation of the three programs removes an attendance row: the log after
  any sequence of operations starts with the log before it. So a roll number that has an
  attendance row keeps having one.
\<close>

theorem attendance_is_monotone:
  "prefix (attendance d) (attendance (foldl (apply_op m) d ops))
   \<and> (attendance_exists d roll \<longrightarrow> attendance_exists (foldl (apply_op m) d ops) roll)"
proof -
  have p: "prefix (attendance d) (attendance (foldl (apply_op m) d ops))"
    by (rule foldl_apply_op_attendance)
  then have "set (attendance d) \<subseteq> set (attendance (foldl (apply_op m) d ops))"
    by (rule set_mono_prefix)
  then have "attendance_exists d roll \<longrightarrow> attendance_exists (foldl (apply_op m) d ops) roll"
    by (auto simp: attendance_exists_def)
  with p show ?thesis by simp
qed

theorem attendance_is_monotone_witness:
  "attendance_exists
     (insert_attendance demo_db ''R001'' ''2025-01-01T18:30:00Z'' ''webrtc_live'' '''') ''R001''
   \<and> attendance_exists
       (foldl (apply_op max_tries_qr2)
          (insert_attendance demo_db ''R001'' ''2025-01-01T18:30:00Z'' ''webrtc_live'' '''')
          [OpRecv ref_libs quiet_env new_transformer 5 demo_qr,
           OpSaveStudent ''R001'' ''Asha'' ''asha@example.org'' demo_qr ''2025-01-02 09:00:00'',
           OpInitDb,
           OpAddAttendance locked_env ''R002'' ''webrtc_scan'' '''']) ''R001''"
proof -
  have e: "attendance_exists
     (insert_attendance demo_db ''R001'' ''2025-01-01T18:30:00Z'' ''webrtc_live'' '''') ''R001''"
    by simp
  with attendance_is_monotone[where
      d = "insert_attendance demo_db ''R001'' ''2025-01-01T18:30:00Z'' ''webrtc_live'' ''''"
      and roll = "''R001''" and m = max_tries_qr2
      and ops = "[OpRecv ref_libs quiet_env new_transformer 5 demo_qr,
           OpSaveStudent ''R001'' ''Asha'' ''asha@example.org'' demo_qr ''2025-01-02 09:00:00'',
           OpInitDb,
           OpAddAttendance locked_env ''R002'' ''webrtc_scan'' '''']"]
  show ?thesis by blast
qed

section \<open>Overlapping calls\<close>

lemma run_schedule_append:
  "run_schedule m L (a @ b) s = run_schedule m L b (run_schedule m L a s)"
proof (induction a arbitrary: s)
  case Nil
  then show ?case by simp
next
  case (Cons i a)
  obtain d ths where s: "s = (d, ths)" by (cases s)
  show ?case unfolding s by (simp add: Cons.IH split: prod.splits)
qed

lemma run_schedule_one_thread:
  "run_schedule m L (replicate n (length pre)) (d, pre @ th # post) =
     (case ((\<lambda>(d, th). thread_step m L d th) ^^ n) (d, th) of
        (d', th') \<Rightarrow> (d', pre @ th' # post))"
proof (induction n arbitrary: d th)
  case 0
  then show ?case by simp
next
  case (Suc n)
  obtain d1 th1 where step: "thread_step m L d th = (d1, th1)"
    by (cases "thread_step m L d th")
  have "run_schedule m L (replicate (Suc n) (length pre)) (d, pre @ th # post) =
      run_schedule m L (replicate n (length pre)) (d1, pre @ th1 # post)"
    by (simp add: step)
  also have "\<dots> = (case ((\<lambda>(d, th). thread_step m L d th) ^^ n) (d1, th1) of
        (d', th') \<Rightarrow> (d', pre @ th' # post))"
    by (rule Suc.IH)
  finally show ?case by (simp add: funpow_Suc_right step del: funpow.simps)
qed

lemma thread_step_finished [simp]:
  "thread_step m L d \<lparr>th_qr_data = q, th_env = ev, th_pc = Finished r\<rparr> =
     (d, \<lparr>th_qr_data = q, th_env = ev, th_pc = Finished r\<rparr>)"
  by (simp add: thread_step_def)

text \<open>The last two steps of a call are \<open>mark_attendance\<close>.\<close>

lemma thread_mark_steps:
  "(\<lambda>(d, th). thread_step m L d th)
     (thread_step m L d \<lparr>th_qr_data = q, th_env = ev, th_pc = AtExists st roll\<rparr>) =
   (fst (snd (mark_attendance m ev d st roll)),
    \<lparr>th_qr_data = q, th_env = ev, th_pc = Finished (fst (mark_attendance m ev d st roll))\<rparr>)"
proof (cases "attendance_exists d roll")
  case True
  then show ?thesis by (simp add: thread_step_def mark_attendance_def)
next
  case False
  obtain r d' calls where a: "add_attendance m ev d roll ''webrtc_live'' '''' = (r, d', calls)"
    by (cases "add_attendance m ev d roll ''webrtc_live'' ''''")
  show ?thesis
  proof (cases r)
    case (Inl e)
    with False a show ?thesis by (simp add: thread_step_def mark_attendance_def)
  next
    case (Inr ts)
    with False a show ?thesis by (simp add: thread_step_def mark_attendance_def)
  qed
qed

text \<open>A call that runs alone is \<open>verify_qr_data\<close>.\<close>

lemma thread_alone:
  "((\<lambda>(d, th). thread_step m L d th) ^^ 5) (d, start_thread q ev) =
     (fst (snd (verify_qr_data m L ev d q)),
      \<lparr>th_qr_data = q, th_env = ev, th_pc = Finished (fst (verify_qr_data m L ev d q))\<rparr>)"
proof -
  let ?S = "\<lambda>(d, th). thread_step m L d th"
  have five: "(?S ^^ 5) x = ?S (?S (?S (?S (?S x))))" for x
    by (simp add: eval_nat_numeral)
  have idle: "?S (d0, \<lparr>th_qr_data = q, th_env = ev, th_pc = Finished r\<rparr>) =
      (d0, \<lparr>th_qr_data = q, th_env = ev, th_pc = Finished r\<rparr>)" for d0 r
    by simp
  have mark: "?S (?S (d, \<lparr>th_qr_data = q, th_env = ev, th_pc = AtExists st roll\<rparr>)) =
      (fst (snd (mark_attendance m ev d st roll)),
       \<lparr>th_qr_data = q, th_env = ev, th_pc = Finished (fst (mark_attendance m ev d st roll))\<rparr>)"
    for st roll
    using thread_mark_steps[of m L d q ev st roll] by simp
  have start: "?S (d, start_thread q ev) =
      (case decode_token L q of
         None \<Rightarrow> (d, \<lparr>th_qr_data = q, th_env = ev, th_pc = Finished (Inr Invalid)\<rparr>)
       | Some (roll, nonce) \<Rightarrow> (d, \<lparr>th_qr_data = q, th_env = ev, th_pc = AtLookupRoll roll\<rparr>))"
    by (simp add: start_thread_def thread_step_def split: option.splits)
  show ?thesis
  proof (cases "decode_token L q")
    case None
    then show ?thesis
      unfolding five start by (simp add: verify_qr_data_def)
  next
    case (Some rn)
    obtain roll nonce where rn: "rn = (roll, nonce)" by (cases rn)
    have s1: "?S (d, start_thread q ev) =
        (d, \<lparr>th_qr_data = q, th_env = ev, th_pc = AtLookupRoll roll\<rparr>)"
      unfolding start by (simp add: Some rn)
    show ?thesis
    proof (cases "get_student_by_roll d roll")
      case found: (Some st)
      have s2: "?S (d, \<lparr>th_qr_data = q, th_env = ev, th_pc = AtLookupRoll roll\<rparr>) =
          (d, \<lparr>th_qr_data = q, th_env = ev, th_pc = AtExists st roll\<rparr>)"
        by (simp add: thread_step_def found)
      have "(?S ^^ 5) (d, start_thread q ev) =
          ?S (?S (?S (d, \<lparr>th_qr_data = q, th_env = ev, th_pc = AtExists st roll\<rparr>)))"
        unfolding five s1 s2 ..
      also have "\<dots> = (fst (snd (mark_attendance m ev d st roll)),
          \<lparr>th_qr_data = q, th_env = ev, th_pc = Finished (fst (mark_attendance m ev d st roll))\<rparr>)"
        unfolding mark idle ..
      finally show ?thesis
        by (simp add: verify_qr_data_def Some rn lookup_and_mark_def lookup_student_def found
            split: prod.splits)
    next
      case None
      have s2: "?S (d, \<lparr>th_qr_data = q, th_env = ev, th_pc = AtLookupRoll roll\<rparr>) =
          (d, \<lparr>th_qr_data = q, th_env = ev, th_pc = AtLookupToken roll\<rparr>)"
        by (simp add: thread_step_def None)
      show ?thesis
      proof (cases "get_student_by_token_b64 d q")
        case unknown: None
        have s3: "?S (d, \<lparr>th_qr_data = q, th_env = ev, th_pc = AtLookupToken roll\<rparr>) =
            (d, \<lparr>th_qr_data = q, th_env = ev, th_pc = Finished (Inr Unknown)\<rparr>)"
          by (simp add: thread_step_def unknown)
        have "(?S ^^ 5) (d, start_thread q ev) =
            (d, \<lparr>th_qr_data = q, th_env = ev, th_pc = Finished (Inr Unknown)\<rparr>)"
          unfolding five s1 s2 s3 idle ..
        then show ?thesis
          by (simp add: verify_qr_data_def Some rn lookup_and_mark_def lookup_student_def
              None unknown)
      next
        case found: (Some st)
        have s3: "?S (d, \<lparr>th_qr_data = q, th_env = ev, th_pc = AtLookupToken roll\<rparr>) =
            (d, \<lparr>th_qr_data = q, th_env = ev, th_pc = AtExists st roll\<rparr>)"
          by (simp add: thread_step_def found)
        have "(?S ^^ 5) (d, start_thread q ev) =
            ?S (?S (d, \<lparr>th_qr_data = q, th_env = ev, th_pc = AtExists st roll\<rparr>))"
          unfolding five s1 s2 s3 ..
        also have "\<dots> = (fst (snd (mark_attendance m ev d st roll)),
            \<lparr>th_qr_data = q, th_env = ev, th_pc = Finished (fst (mark_attendance m ev d st roll))\<rparr>)"
          unfolding mark ..
        finally show ?thesis
          by (simp add: verify_qr_data_def Some rn lookup_and_mark_def lookup_student_def
              None found split: prod.splits)
      qed
    qed
  qed
qed

lemma run_schedule_alone:
  "run_schedule m L (replicate 5 (length pre)) (d, pre @ start_thread q ev # post) =
     (fst (snd (verify_qr_data m L ev d q)),
      pre @ \<lparr>th_qr_data = q, th_env = ev, th_pc = Finished (fst (verify_qr_data m L ev d q))\<rparr>
        # post)"
  by (simp add: run_schedule_one_thread thread_alone)

lemma run_schedule_sequential:
  "run_schedule m L (concat (map (replicate 5) [length pre..<length pre + length calls]))
     (d, pre @ start_threads calls) =
   (snd (verify_each m L d calls),
    pre @ map (\<lambda>((q, ev), r). \<lparr>th_qr_data = q, th_env = ev, th_pc = Finished r\<rparr>)
            (zip calls (fst (verify_each m L d calls))))"
proof (induction calls arbitrary: pre d)
  case Nil
  then show ?case by (simp add: start_threads_def)
next
  case (Cons c calls)
  obtain q ev where c: "c = (q, ev)" by (cases c)
  obtain r d1 cs where v: "verify_qr_data m L ev d q = (r, d1, cs)"
    by (cases "verify_qr_data m L ev d q")
  let ?fin = "\<lparr>th_qr_data = q, th_env = ev, th_pc = Finished r\<rparr>"
  have "[length pre..<length pre + Suc (length calls)] =
      length pre # [Suc (length pre)..<length pre + Suc (length calls)]"
    by (rule upt_conv_Cons) simp
  then have range: "[length pre..<length pre + length (c # calls)] =
      length pre # [length (pre @ [?fin])..<length (pre @ [?fin]) + length calls]"
    by simp
  have "run_schedule m L (concat (map (replicate 5) [length pre..<length pre + length (c # calls)]))
     (d, pre @ start_threads (c # calls)) =
     run_schedule m L
       (concat (map (replicate 5) [length (pre @ [?fin])..<length (pre @ [?fin]) + length calls]))
       (run_schedule m L (replicate 5 (length pre))
          (d, pre @ start_thread q ev # start_threads calls))"
    unfolding range by (simp add: run_schedule_append c start_threads_def)
  also have "run_schedule m L (replicate 5 (length pre))
          (d, pre @ start_thread q ev # start_threads calls) =
      (d1, (pre @ [?fin]) @ start_threads calls)"
    by (simp add: run_schedule_alone v)
  also have "run_schedule m L
       (concat (map (replicate 5) [length (pre @ [?fin])..<length (pre @ [?fin]) + length calls]))
       (d1, (pre @ [?fin]) @ start_threads calls) =
     (snd (verify_each m L d1 calls),
      (pre @ [?fin]) @ map (\<lambda>((q, ev), r). \<lparr>th_qr_data = q, th_env = ev, th_pc = Finished r\<rparr>)
            (zip calls (fst (verify_each m L d1 calls))))"
    by (rule Cons.IH)
  finally show ?case
    by (simp add: c v split: prod.splits)
qed

lemma get_student_insert_attendance [simp]:
  "get_student_by_roll (insert_attendance d r ts src nt) roll = get_student_by_roll d roll"
  "get_student_by_token_b64 (insert_attendance d r ts src nt) q = get_student_by_token_b64 d q"
  by (simp_all add: get_student_by_roll_def get_student_by_token_b64_def)

lemma lookup_student_insert_attendance [simp]:
  "lookup_student (insert_attendance d r ts src nt) roll q = lookup_student d roll q"
  by (simp add: lookup_student_def split: option.splits)

lemma th_pc_finished_replicate:
  "map th_pc (map (\<lambda>((q, ev), r). \<lparr>th_qr_data = q, th_env = ev, th_pc = Finished r\<rparr>)
      (zip cs (replicate (length cs) x))) = replicate (length cs) (Finished x)"
  by (induction cs) auto

lemma verify_qr_data_duplicate:
  assumes "decode_token L q = Some (p, nonce)" and "fst (lookup_student d p q) \<noteq> None"
    and "attendance_exists d p"
  shows "fst (verify_qr_data m L ev d q) = Inr (Duplicate p)"
    and "fst (snd (verify_qr_data m L ev d q)) = d"
proof -
  from assms(2) obtain st calls where "lookup_student d p q = (Some st, calls)"
    by (cases "lookup_student d p q") auto
  with assms(1,3) show "fst (verify_qr_data m L ev d q) = Inr (Duplicate p)"
    and "fst (snd (verify_qr_data m L ev d q)) = d"
    by (simp_all add: verify_qr_data_def lookup_and_mark_def mark_attendance_def)
qed

lemma verify_qr_data_first:
  assumes "decode_token L q = Some (p, nonce)" and "fst (lookup_student d p q) \<noteq> None"
    and "\<not> attendance_exists d p" and "\<exists>k\<le>m. \<not> busy ev k"
  shows "\<exists>st ts. fst (verify_qr_data m L ev d q) = Inr (Verified st p ts) \<and>
           fst (snd (verify_qr_data m L ev d q)) = insert_attendance d p ts ''webrtc_live'' ''''"
proof -
  from assms(2) obtain st calls where look: "lookup_student d p q = (Some st, calls)"
    by (cases "lookup_student d p q") auto
  show ?thesis
  proof (rule mark_attendance_cases[where d = d and roll = p and m = m and ev = ev and st = st])
    assume "attendance_exists d p"
    with assms(3) show ?thesis by simp
  next
    fix j
    assume "mark_attendance m ev d st p =
         (Inr (Verified st p (utcnow ev j @ ''Z'')),
          insert_attendance d p (utcnow ev j @ ''Z'') ''webrtc_live'' '''',
          SelectAttendance p #
          concat (replicate j [InsertAttendance p, Sleep]) @ [InsertAttendance p])"
    with assms(1) look show ?thesis
      by (simp add: verify_qr_data_def lookup_and_mark_def del: split_paired_Ex)
  next
    assume "\<forall>i\<le>m. busy ev i"
    with assms(4) show ?thesis by auto
  qed
qed

lemma verify_each_duplicates:
  assumes "attendance_exists d p"
    and "\<forall>(q, ev) \<in> set calls.
           (\<exists>nonce. decode_token L q = Some (p, nonce)) \<and> fst (lookup_student d p q) \<noteq> None"
  shows "verify_each m L d calls = (replicate (length calls) (Inr (Duplicate p)), d)"
  using assms(2)
proof (induction calls)
  case Nil
  then show ?case by simp
next
  case (Cons c calls)
  obtain q ev where c: "c = (q, ev)" by (cases c)
  with Cons.prems obtain nonce where "decode_token L q = Some (p, nonce)"
    "fst (lookup_student d p q) \<noteq> None"
    by auto
  then have "fst (verify_qr_data m L ev d q) = Inr (Duplicate p)"
    "fst (snd (verify_qr_data m L ev d q)) = d"
    using assms(1) by (simp_all add: verify_qr_data_duplicate)
  moreover from Cons have "verify_each m L d calls = (replicate (length calls) (Inr (Duplicate p)), d)"
    by simp
  ultimately show ?case by (auto simp add: c split: prod.splits)
qed

text \<open>
  Claim C1, as the code has it. The duplicate check and the insert of \<open>recv\<close> are two
  store calls with nothing held between them, and the attendance table has no uniqueness
  constraint. What holds is the sequential case: when calls that all decode to the same
  participant, who is in the students table and has no attendance row yet, run one after
  the other, each to its end, and the store lets each write within its retries, then the
  first call is \<open>Verified\<close>, every later one is \<open>Duplicate\<close>, and the participant
  has exactly one attendance row.
\<close>

theorem sequential_calls_mark_once:
  assumes "\<not> attendance_exists d p"
    and "\<forall>(q, ev) \<in> set calls.
           (\<exists>nonce. decode_token L q = Some (p, nonce)) \<and> fst (lookup_student d p q) \<noteq> None \<and>
           (\<exists>k\<le>m. \<not> busy ev k)"
    and "calls \<noteq> []"
  shows "case run_schedule m L (sequential_schedule (length calls)) (d, start_threads calls) of
           (d', ths) \<Rightarrow>
             (\<exists>r. is_verified r \<and>
                map th_pc ths =
                  Finished r # replicate (length calls - 1) (Finished (Inr (Duplicate p))))
             \<and> length (filter (\<lambda>a. att_roll_no a = p) (attendance d')) = 1"
proof -
  from assms(3) obtain q ev rest where calls: "calls = (q, ev) # rest"
    by (cases calls) auto
  with assms(2) obtain nonce where first: "decode_token L q = Some (p, nonce)"
    "fst (lookup_student d p q) \<noteq> None" "\<exists>k\<le>m. \<not> busy ev k"
    by auto
  from verify_qr_data_first[OF first(1,2) assms(1) first(3)]
  obtain st ts where v: "fst (verify_qr_data m L ev d q) = Inr (Verified st p ts)"
    "fst (snd (verify_qr_data m L ev d q)) = insert_attendance d p ts ''webrtc_live'' ''''"
    by blast
  let ?d1 = "insert_attendance d p ts ''webrtc_live'' ''''"
  have "\<forall>(q, ev) \<in> set rest.
           (\<exists>nonce. decode_token L q = Some (p, nonce)) \<and> fst (lookup_student ?d1 p q) \<noteq> None"
    using assms(2) calls by auto
  then have rest: "verify_each m L ?d1 rest = (replicate (length rest) (Inr (Duplicate p)), ?d1)"
    by (intro verify_each_duplicates) simp_all
  have each: "verify_each m L d calls =
      (Inr (Verified st p ts) # replicate (length rest) (Inr (Duplicate p)), ?d1)"
    using v rest by (auto simp add: calls split: prod.splits)
  have run: "run_schedule m L (sequential_schedule (length calls)) (d, start_threads calls) =
      (?d1,
       map (\<lambda>((q, ev), r). \<lparr>th_qr_data = q, th_env = ev, th_pc = Finished r\<rparr>)
         (zip calls (Inr (Verified st p ts) # replicate (length rest) (Inr (Duplicate p)))))"
    using run_schedule_sequential[of m L "[]" calls d]
    by (simp add: sequential_schedule_def each)
  have pcs: "map th_pc (map (\<lambda>((q, ev), r). \<lparr>th_qr_data = q, th_env = ev, th_pc = Finished r\<rparr>)
         (zip calls (Inr (Verified st p ts) # replicate (length rest) (Inr (Duplicate p))))) =
      Finished (Inr (Verified st p ts)) # replicate (length calls - 1) (Finished (Inr (Duplicate p)))"
    using th_pc_finished_replicate[of rest "Inr (Duplicate p)"] by (simp add: calls)
  have none: "filter (\<lambda>a. att_roll_no a = p) (attendance d) = []"
    using assms(1) by (auto simp: attendance_exists_def filter_empty_conv)
  have one: "length (filter (\<lambda>a. att_roll_no a = p) (attendance ?d1)) = 1"
    by (simp add: attendance_insert_attendance none)
  have "is_verified (Inr (Verified st p ts))" by simp
  with pcs one show ?thesis
    unfolding run by (simp del: split_paired_Ex)
qed

theorem sequential_calls_mark_once_witness:
  "\<not> attendance_exists demo_db ''R001''
   \<and> decode_token ref_libs demo_qr = Some (''R001'', ''AQIDBAUG'')
   \<and> fst (lookup_student demo_db ''R001'' demo_qr) \<noteq> None
   \<and> \<not> busy quiet_env 0
   \<and> tl (map th_pc (snd (run_schedule max_tries_qr2 ref_libs (sequential_schedule 2)
        (demo_db, start_threads [(demo_qr, quiet_env), (demo_qr, quiet_env)])))) =
       [Finished (Inr (Duplicate ''R001''))]
   \<and> length (filter (\<lambda>a. att_roll_no a = ''R001'')
        (attendance (fst (run_schedule max_tries_qr2 ref_libs (sequential_schedule 2)
          (demo_db, start_threads [(demo_qr, quiet_env), (demo_qr, quiet_env)]))))) = 1"
proof -
  have look: "fst (lookup_student demo_db ''R001'' demo_qr) \<noteq> None"
    by (simp add: lookup_student_def demo_lookup)
  have free: "\<exists>k\<le>max_tries_qr2. \<not> busy quiet_env k"
    by (intro exI[of _ 0]) (simp add: quiet_env_def)
  have calls: "\<forall>(q, ev) \<in> set [(demo_qr, quiet_env), (demo_qr, quiet_env)].
           (\<exists>nonce. decode_token ref_libs q = Some (''R001'', nonce)) \<and>
           fst (lookup_student demo_db ''R001'' q) \<noteq> None \<and>
           (\<exists>k\<le>max_tries_qr2. \<not> busy ev k)"
    using look free by (simp add: demo_qr_decodes)
  have two: "length [(demo_qr, quiet_env), (demo_qr, quiet_env)] = 2" by simp
  have "case run_schedule max_tries_qr2 ref_libs (sequential_schedule 2)
          (demo_db, start_threads [(demo_qr, quiet_env), (demo_qr, quiet_env)]) of
        (d', ths) \<Rightarrow>
          (\<exists>r. is_verified r \<and>
             map th_pc ths = Finished r # replicate (2 - 1) (Finished (Inr (Duplicate ''R001''))))
          \<and> length (filter (\<lambda>a. att_roll_no a = ''R001'') (attendance d')) = 1"
    using sequential_calls_mark_once[OF demo_not_marked calls] unfolding two by simp
  with demo_not_marked look demo_qr_decodes show ?thesis
    by (auto simp: quiet_env_def split: prod.splits)
qed

text \<open>
  The claim as the specification words it fails. Two calls of \<open>recv\<close> on the text of
  the same never-seen participant, scheduled so that both make their duplicate check
  before either inserts, are both \<open>Verified\<close>, and the participant has two attendance
  rows.
\<close>

theorem overlapping_calls_counterexample:
  "\<not> attendance_exists demo_db ''R001''
   \<and> map th_pc (snd (run_schedule max_tries_qr2 ref_libs [0, 0, 0, 1, 1, 1, 0, 1]
        (demo_db, start_threads [(demo_qr, quiet_env), (demo_qr, quiet_env)]))) =
       [Finished (Inr (Verified (''R001'', ''Asha'', ''asha@example.org'') ''R001''
                    ''2025-01-01T18:30:00Z'')),
        Finished (Inr (Verified (''R001'', ''Asha'', ''asha@example.org'') ''R001''
                    ''2025-01-01T18:30:00Z''))]
   \<and> map att_roll_no (attendance (fst (run_schedule max_tries_qr2 ref_libs [0, 0, 0, 1, 1, 1, 0, 1]
        (demo_db, start_threads [(demo_qr, quiet_env), (demo_qr, quiet_env)])))) =
       [''R001'', ''R001'']"
proof -
  let ?st = "(''R001'', ''Asha'', ''asha@example.org'')"
  let ?ts = "''2025-01-01T18:30:00Z''"
  let ?d1 = "insert_attendance demo_db ''R001'' ?ts ''webrtc_live'' ''''"
  let ?d2 = "insert_attendance ?d1 ''R001'' ?ts ''webrtc_live'' ''''"
  have s1: "thread_step m L d \<lparr>th_qr_data = demo_qr, th_env = ev, th_pc = AtDecode\<rparr> =
      (d, \<lparr>th_qr_data = demo_qr, th_env = ev, th_pc = AtLookupRoll ''R001''\<rparr>)"
    if "decode_token L demo_qr = Some (''R001'', ''AQIDBAUG'')" for m L d ev
    using that by (simp add: thread_step_def)
  have s2: "thread_step m L demo_db \<lparr>th_qr_data = demo_qr, th_env = ev, th_pc = AtLookupRoll ''R001''\<rparr> =
      (demo_db, \<lparr>th_qr_data = demo_qr, th_env = ev, th_pc = AtExists ?st ''R001''\<rparr>)" for m L ev
    by (simp add: thread_step_def demo_lookup)
  have s3: "thread_step m L demo_db \<lparr>th_qr_data = demo_qr, th_env = ev, th_pc = AtExists ?st ''R001''\<rparr> =
      (demo_db, \<lparr>th_qr_data = demo_qr, th_env = ev, th_pc = AtAdd ?st ''R001''\<rparr>)" for m L ev
    by (simp add: thread_step_def demo_not_marked)
  have s4: "thread_step m L d \<lparr>th_qr_data = demo_qr, th_env = quiet_env, th_pc = AtAdd ?st ''R001''\<rparr> =
      (insert_attendance d ''R001'' ?ts ''webrtc_live'' '''',
       \<lparr>th_qr_data = demo_qr, th_env = quiet_env, th_pc = Finished (Inr (Verified ?st ''R001'' ?ts))\<rparr>)"
    for m L d
    by (simp add: thread_step_def add_attendance_quiet)
  have run: "run_schedule max_tries_qr2 ref_libs [0, 0, 0, 1, 1, 1, 0, 1]
        (demo_db, start_threads [(demo_qr, quiet_env), (demo_qr, quiet_env)]) =
      (?d2,
       [\<lparr>th_qr_data = demo_qr, th_env = quiet_env, th_pc = Finished (Inr (Verified ?st ''R001'' ?ts))\<rparr>,
        \<lparr>th_qr_data = demo_qr, th_env = quiet_env, th_pc = Finished (Inr (Verified ?st ''R001'' ?ts))\<rparr>])"
    by (simp add: start_threads_def start_thread_def s1[OF demo_qr_decodes] s2 s3 s4)
  show ?thesis
    unfolding run by (simp add: demo_not_marked attendance_insert_attendance demo_db_tables)
qed

end
